theory Spec2Isabelle
  imports Main "HOL-Library.AList"
begin

section \<open>JavaScript values of a request body\<close>

text \<open>
  The trigger routes read their arguments from a JSON request body, so every field is a
  JSON value or absent. Numbers are modelled as integers: the millisecond arithmetic of
  the time helpers is exact on integer-valued doubles below \<open>2^53\<close>, and fractional or
  non-finite numbers are outside the model.
\<close>

datatype jsval =
    JUndefined
  | JNull
  | JBool bool
  | JNum int
  | JStr string
  | JObj "(string \<times> jsval) list"

text \<open>Truthiness, as \<open>!x\<close>, \<open>x || y\<close> and \<open>x && y\<close> test it.\<close>

fun truthy :: "jsval \<Rightarrow> bool" where
  "truthy JUndefined = False"
| "truthy JNull = False"
| "truthy (JBool b) = b"
| "truthy (JNum n) = (n \<noteq> 0)"
| "truthy (JStr s) = (s \<noteq> [])"
| "truthy (JObj kvs) = True"

text \<open>\<open>a || b\<close>.\<close>

definition js_or :: "jsval \<Rightarrow> jsval \<Rightarrow> jsval" where
  "js_or a b = (if truthy a then a else b)"

text \<open>Property access \<open>obj.key\<close>; a missing property reads as \<open>undefined\<close>.\<close>

definition js_get :: "(string \<times> jsval) list \<Rightarrow> string \<Rightarrow> jsval" where
  "js_get kvs k = (case map_of kvs k of None \<Rightarrow> JUndefined | Some v \<Rightarrow> v)"

subsection \<open>Decimal rendering of numbers\<close>

definition digit_char :: "nat \<Rightarrow> char" where
  "digit_char d = ''0123456789'' ! d"

fun show_nat :: "nat \<Rightarrow> string" where
  "show_nat n = (if n < 10 then [digit_char n] else show_nat (n div 10) @ [digit_char (n mod 10)])"

declare show_nat.simps [simp del]

definition show_int :: "int \<Rightarrow> string" where
  "show_int i = (if i < 0 then CHR ''-'' # show_nat (nat (- i)) else show_nat (nat i))"

text \<open>\<open>String(x)\<close> and template interpolation \<open>`${x}`\<close>.\<close>

fun js_string :: "jsval \<Rightarrow> string" where
  "js_string JUndefined = ''undefined''"
| "js_string JNull = ''null''"
| "js_string (JBool b) = (if b then ''true'' else ''false'')"
| "js_string (JNum n) = show_int n"
| "js_string (JStr s) = s"
| "js_string (JObj kvs) = ''[object Object]''"

text \<open>
  \<open>Number(x)\<close>, with \<open>None\<close> for \<open>NaN\<close>. The conversion of a string to a number is the
  language's \<open>StringToNumber\<close>; it is a parameter \<open>s2n\<close> of everything that converts, so
  the results below hold for whatever it returns. A plain object converts through its
  string form.
\<close>

fun js_number :: "(string \<Rightarrow> int option) \<Rightarrow> jsval \<Rightarrow> int option" where
  "js_number s2n JUndefined = None"
| "js_number s2n JNull = Some 0"
| "js_number s2n (JBool b) = Some (if b then 1 else 0)"
| "js_number s2n (JNum n) = Some n"
| "js_number s2n (JStr s) = s2n s"
| "js_number s2n (JObj kvs) = s2n ''[object Object]''"

text \<open>\<open>Number(x) || 0\<close>: both \<open>NaN\<close> and \<open>0\<close> are falsy.\<close>

definition number_or_zero :: "(string \<Rightarrow> int option) \<Rightarrow> jsval \<Rightarrow> int" where
  "number_or_zero s2n v = (case js_number s2n v of None \<Rightarrow> 0 | Some n \<Rightarrow> n)"

section \<open>Time helpers of the trigger route\<close>

text \<open>
  \<^verbatim>\<open>
  function getPatchWindowMs(patchWindow) {
    if (patchWindow && typeof patchWindow === "object") {
      const d = Number(patchWindow.days) || 0;
      const h = Number(patchWindow.hours) || 0;
      const m = Number(patchWindow.minutes) || 0;
      return d * 86400000 + h * 3600000 + m * 60000;
    }
    const legacyHours = Number(patchWindow);
    if (Number.isFinite(legacyHours) && legacyHours > 0) return legacyHours * 3600000;
    return 0;
  }
  \<close>
\<close>

definition getPatchWindowMs :: "(string \<Rightarrow> int option) \<Rightarrow> jsval \<Rightarrow> int" where
  "getPatchWindowMs s2n patchWindow =
     (case patchWindow of
        JObj kvs \<Rightarrow>
          (let d = number_or_zero s2n (js_get kvs ''days'');
               h = number_or_zero s2n (js_get kvs ''hours'');
               m = number_or_zero s2n (js_get kvs ''minutes'')
           in d * 86400000 + h * 3600000 + m * 60000)
      | _ \<Rightarrow>
          (case js_number s2n patchWindow of
             Some legacyHours \<Rightarrow> if legacyHours > 0 then legacyHours * 3600000 else 0
           | None \<Rightarrow> 0))"

text \<open>
  \<^verbatim>\<open>
  function msToXSDuration(ms) {
    if (!Number.isFinite(ms) || ms === 0) return "PT0S";
    const neg = ms < 0;
    let t = Math.abs(ms);
    const totalSeconds = Math.floor(t / 1000);
    const days = Math.floor(totalSeconds / 86400);
    let rem = totalSeconds % 86400;
    const hours = Math.floor(rem / 3600);
    rem = rem % 3600;
    const minutes = Math.floor(rem / 60);
    const seconds = rem % 60;
    let out = "";
    if (days) out += `${days}D`;
    const timeParts = [];
    if (hours) timeParts.push(`${hours}H`);
    if (minutes) timeParts.push(`${minutes}M`);
    if (seconds) timeParts.push(`${seconds}S`);
    if (timeParts.length) out += `T${timeParts.join("")}`;
    else if (!days) out = "T0S";
    return (neg ? "-" : "") + "P" + out;
  }
  \<close>
\<close>

definition msToXSDuration :: "int \<Rightarrow> string" where
  "msToXSDuration ms =
     (if ms = 0 then ''PT0S''
      else
        let neg = ms < 0;
            t = nat \<bar>ms\<bar>;
            totalSeconds = t div 1000;
            days = totalSeconds div 86400;
            rem = totalSeconds mod 86400;
            hours = rem div 3600;
            rem' = rem mod 3600;
            minutes = rem' div 60;
            seconds = rem' mod 60;
            out = (if days \<noteq> 0 then show_nat days @ ''D'' else '''');
            timeParts =
              (if hours \<noteq> 0 then [show_nat hours @ ''H''] else []) @
              (if minutes \<noteq> 0 then [show_nat minutes @ ''M''] else []) @
              (if seconds \<noteq> 0 then [show_nat seconds @ ''S''] else []);
            out' = (if timeParts \<noteq> [] then out @ ''T'' @ concat timeParts
                    else if days = 0 then ''T0S'' else out)
        in (if neg then ''-'' else '''') @ ''P'' @ out')"

text \<open>
  \<^verbatim>\<open>
  function localUtcOffsetMs() {
    const offsetMin = new Date().getTimezoneOffset();
    return -offsetMin * 60000;
  }
  \<close>
  The clock's answer \<open>offsetMin\<close> (minutes behind UTC) is an input.
\<close>

definition localUtcOffsetMs :: "int \<Rightarrow> int" where
  "localUtcOffsetMs offsetMin = - offsetMin * 60000"

section \<open>String helpers\<close>

text \<open>Double and single quote characters, for the texts that embed them.\<close>

definition dq :: string where
  "dq = [CHR 0x22]"

definition sq :: string where
  "sq = [CHR 0x27]"

text \<open>\<open>toLowerCase\<close> on the ASCII letters; other characters are left as they are.\<close>

definition to_lower :: "char \<Rightarrow> char" where
  "to_lower c =
     (case map_of (zip ''ABCDEFGHIJKLMNOPQRSTUVWXYZ'' ''abcdefghijklmnopqrstuvwxyz'') c of
        None \<Rightarrow> c
      | Some l \<Rightarrow> l)"

text \<open>\<open>function toLowerSafe(x) { return String(x || "").toLowerCase(); }\<close>, on a string.\<close>

definition toLowerSafe :: "string \<Rightarrow> string" where
  "toLowerSafe x = map to_lower x"

text \<open>\<open>s.includes(p)\<close>.\<close>

fun js_includes :: "string \<Rightarrow> string \<Rightarrow> bool" where
  "js_includes [] p = (p = [])"
| "js_includes (c # cs) p = (take (length p) (c # cs) = p \<or> js_includes cs p)"

text \<open>\<open>s.replace(/c/g, r)\<close> for a one-character pattern.\<close>

definition replace_all :: "char \<Rightarrow> string \<Rightarrow> string \<Rightarrow> string" where
  "replace_all c r s = concat (map (\<lambda>x. if x = c then r else [x]) s)"

text \<open>
  \<^verbatim>\<open>
  function xmlEscape(str) {
    if (str == null) return "";
    return String(str).replace(/&/g, "&amp;").replace(/</g, "&lt;").replace(/>/g, "&gt;")
      .replace(/"/g, "&quot;").replace(/'/g, "&apos;");
  }
  \<close>
\<close>

definition xmlEscape :: "string \<Rightarrow> string" where
  "xmlEscape str =
     replace_all (CHR 0x27) ''&apos;''
       (replace_all (CHR 0x22) ''&quot;''
         (replace_all CHR ''>'' ''&gt;''
           (replace_all CHR ''<'' ''&lt;''
             (replace_all CHR ''&'' ''&amp;'' str))))"

text \<open>
  \<open>s.trim()\<close>: the white space and line terminators of the language among the characters
  below code 256, which are the space, the controls 9 to 13 and the no-break space.
\<close>

definition is_space :: "char \<Rightarrow> bool" where
  "is_space c =
     (c \<in> set [CHR '' '', CHR 0x09, CHR 0x0A, CHR 0x0B, CHR 0x0C, CHR 0x0D, CHR 0xA0])"

definition trim :: "string \<Rightarrow> string" where
  "trim s = rev (dropWhile is_space (rev (dropWhile is_space s)))"

section \<open>Target expression of a resolved group\<close>

text \<open>
  Step 4 of \<open>triggerBaselineAction\<close>, on the tuple \<open>(gName, gId, gSite, gType)\<close> that the
  group lookup returned:
  \<^verbatim>\<open>
  const type = toLowerSafe(gType);
  const siteTokenForAutomatic = gSite === "ActionSite" ? `site "actionsite"` : `site "CustomSite_${gSite}"`;
  if (type.includes("automatic")) {
    customRelevance = `exists true whose ( if true then ( member of group ${gId} of ${siteTokenForAutomatic} ) else false)`;
  } else if (type.includes("manual")) {
    customRelevance = `exists true whose ( if true then ( member of manual group "${gName}" of client ) else false)`;
  } else {
    customRelevance = `exists true whose ( if true then ( member of server based group "${gName}" of client ) else false)`;
  }
  \<close>
\<close>

definition siteTokenForAutomatic :: "string \<Rightarrow> string" where
  "siteTokenForAutomatic gSite =
     (if gSite = ''ActionSite'' then ''site '' @ dq @ ''actionsite'' @ dq
      else ''site '' @ dq @ ''CustomSite_'' @ gSite @ dq)"

definition customRelevance :: "string \<Rightarrow> string \<Rightarrow> string \<Rightarrow> string \<Rightarrow> string" where
  "customRelevance gName gId gSite gType =
     (let type = toLowerSafe gType in
      if js_includes type ''automatic'' then
        ''exists true whose ( if true then ( member of group '' @ gId @ '' of '' @
          siteTokenForAutomatic gSite @ '' ) else false)''
      else if js_includes type ''manual'' then
        ''exists true whose ( if true then ( member of manual group '' @ dq @ gName @ dq @
          '' of client ) else false)''
      else
        ''exists true whose ( if true then ( member of server based group '' @ dq @ gName @ dq @
          '' of client ) else false)'')"

text \<open>Step 5: the action document.\<close>

definition actionXml :: "string \<Rightarrow> string \<Rightarrow> string \<Rightarrow> string \<Rightarrow> string \<Rightarrow> string" where
  "actionXml siteName fixletId relevance xmlOffset actionTitle =
     ''<?xml version='' @ dq @ ''1.0'' @ dq @ '' encoding='' @ dq @ ''UTF-8'' @ dq @ ''?>'' @
     ''<BES xmlns:xsi='' @ dq @ ''http://www.w3.org/2001/XMLSchema-instance'' @ dq @
     '' xsi:noNamespaceSchemaLocation='' @ dq @ ''BES.xsd'' @ dq @ ''>'' @
     ''<SourcedFixletAction><SourceFixlet><Sitename>'' @ xmlEscape siteName @
     ''</Sitename><FixletID>'' @ xmlEscape fixletId @
     ''</FixletID><Action>Action1</Action></SourceFixlet><Target><CustomRelevance>'' @
     xmlEscape relevance @
     ''</CustomRelevance></Target><Settings><HasEndTime>true</HasEndTime><EndDateTimeLocalOffset>'' @
     xmlEscape xmlOffset @
     ''</EndDateTimeLocalOffset><UseUTCTime>true</UseUTCTime></Settings><Title>'' @
     xmlEscape actionTitle @ ''</Title></SourcedFixletAction></BES>''"

section \<open>The action store and the durable tables\<close>

text \<open>
  The metadata object that the Dispatcher builds for an accepted action and keeps under
  \<open>actionStore.actions[actionId]\<close>. Action ids are the numerals the action service
  assigns, modelled as natural numbers: the key of the in-memory object and the
  \<open>ActionID\<close> column (\<open>Number(actionId)\<close>) then agree. The two flags that \<open>shouldSend\<close>
  tests with \<open>typeof x === 'boolean'\<close> are optional: \<open>None\<close> is a field that is absent or
  not a boolean.
\<close>

record action_entry =
  entry_id :: nat
  createdAt :: string
  stage :: string
  xml :: string
  baselineName :: string
  baselineSite :: string
  baselineFixletId :: string
  groupName :: string
  groupId :: string
  groupSite :: string
  groupType :: string
  endOffset :: jsval
  preMail :: "bool option"
  smtpEnabled :: "bool option"
  postMailSent :: bool
  triggeredBy :: jsval

text \<open>
  The \<open>Metadata\<close> column holds text. \<open>JSON.parse\<close> of the text that \<open>JSON.stringify\<close>
  wrote for a metadata object gives that object back (\<open>JsonOf\<close>); on any other text it
  throws (\<open>NotJson\<close>).
\<close>

datatype metadata_col = JsonOf action_entry | NotJson

text \<open>
  \<^verbatim>\<open>
  CREATE TABLE dbo.ActionHistory (
      [ActionID] INT NOT NULL PRIMARY KEY, [Metadata] NVARCHAR(MAX) NULL,
      [PostMailSent] BIT DEFAULT 0, [CreatedAt] DATETIME2(7) DEFAULT SYSUTCDATETIME());
  CREATE TABLE dbo.AssetOwnership (
      AssetID INT IDENTITY(1,1) PRIMARY KEY, BigFixID NVARCHAR(255) NOT NULL,
      AssetName NVARCHAR(255) NOT NULL, AssetType NVARCHAR(50) NOT NULL,
      CreatedByRole NVARCHAR(50) NOT NULL, CreatedAt DATETIME DEFAULT SYSUTCDATETIME());
  \<close>
  Times are milliseconds on the UTC time line.
\<close>

record history_row =
  ActionID :: nat
  Metadata :: metadata_col
  PostMailSent :: bool
  CreatedAt :: int

record ownership_row =
  BigFixID :: string
  AssetName :: string
  AssetType :: string
  CreatedByRole :: string

record app_state =
  actions :: "(nat \<times> action_entry) list"
  lastActionId :: "nat option"
  ActionHistory :: "history_row list"
  AssetOwnership :: "ownership_row list"

text \<open>What the program does to the outside world, in the order it does it.\<close>

datatype effect =
    ChgValidation string
  | BaselineLookup string
  | GroupLookup string
  | OwnershipSelect string
  | OwnershipDelete string
  | MembersLookup string
  | SubmitAction string
  | HistoryInsert nat bool
  | TriggerMail
  | HistorySelect bool
  | HistoryDelete bool
  | StatusPoll nat
  | ResultsFetch nat
  | PostPatchMail nat bool
  | FlagSet nat
  | HistoryUpdate nat bool

section \<open>The Dispatcher\<close>

text \<open>An \<open>axios\<close> call made with \<open>validateStatus: () => true\<close> rejects only on a transport error.\<close>

datatype 'a http = NetworkError string | Response int 'a

datatype chg_verdict = ChgOk | ChgRejected string string | ChgThrows string

datatype db_fault = NoFault | PoolFails string | SelectFails string | DeleteFails string

text \<open>
  The answers of the collaborators during one trigger request. A lookup response carries
  the rows of \<open>data.result\<close> (none when it is not an array), each already flattened by
  \<open>collectStrings\<close>; the submission response carries its body and the identifier that
  \<open>extractActionIdFromXml\<close> reads from it.
\<close>

record trigger_env =
  s2n :: "string \<Rightarrow> int option"
  timezoneOffset :: int
  chgVerdict :: chg_verdict
  baselineResp :: "string list list http"
  groupResp :: "string list list http"
  ownershipFault :: db_fault
  submitResp :: "(string \<times> nat option) http"
  smtpReady :: bool
  insertOk :: bool
  dbNow :: int
  isoNow :: string

record trigger_out =
  out_actionId :: "nat option"
  out_siteName :: string
  out_fixletId :: string
  out_group :: string
  out_title :: string
  out_stage :: string
  out_endOffset :: jsval
  out_createdAt :: string

text \<open>
  Step 1 of \<open>triggerBaselineAction\<close>:
  \<^verbatim>\<open>
  if (baselineResp.status < 200 || baselineResp.status >= 300) throw new Error(`Baseline lookup failed: HTTP ${baselineResp.status}`);
  const baselineRows = Array.isArray(baselineResp.data?.result) ? baselineResp.data.result : [];
  if (!baselineRows.length) throw new Error(`Baseline not found: ${baselineName}`);
  const partsB = []; collectStrings(baselineRows[0], partsB);
  if (partsB.length < 2) throw new Error("Unexpected baseline query shape");
  const siteName = partsB[0]; const fixletId = partsB[1];
  \<close>
\<close>

definition baselineLookup :: "trigger_env \<Rightarrow> string \<Rightarrow> string + (string \<times> string)" where
  "baselineLookup env bName =
     (case baselineResp env of
        NetworkError e \<Rightarrow> Inl e
      | Response status baselineRows \<Rightarrow>
          if status < 200 \<or> status \<ge> 300 then
            Inl (''Baseline lookup failed: HTTP '' @ show_int status)
          else
            (case baselineRows of
               [] \<Rightarrow> Inl (''Baseline not found: '' @ bName)
             | partsB # _ \<Rightarrow>
                 if length partsB < 2 then Inl ''Unexpected baseline query shape''
                 else Inr (partsB ! 0, partsB ! 1)))"

text \<open>
  The self-healing branch of step 2, taken when the group lookup gave no row:
  \<^verbatim>\<open>
  if (!groupRows.length) {
      const pool = await getPool();
      const dbCheck = await pool.request().input('Name', sql.NVarChar(255), groupName)
          .query("SELECT BigFixID FROM dbo.AssetOwnership WHERE AssetName = @Name AND AssetType = 'Group'");
      if (dbCheck.recordset.length > 0) {
          await pool.request().input('Name', sql.NVarChar(255), groupName)
             .query("DELETE FROM dbo.AssetOwnership WHERE AssetName = @Name AND AssetType = 'Group'");
          throw new Error(`Group '${groupName}' has been deleted from the BigFix Console. It was removed from your list. Please create it again.`);
      } else {
          throw new Error(`Group '${groupName}' does not exist in BigFix.`);
      }
  }
  \<close>
  It always throws; the result is the message, the table afterwards and the effects.
\<close>

definition is_group_named :: "string \<Rightarrow> ownership_row \<Rightarrow> bool" where
  "is_group_named n r = (AssetName r = n \<and> AssetType r = ''Group'')"

definition ghost_error :: "string \<Rightarrow> string" where
  "ghost_error n =
     ''Group '' @ sq @ n @ sq @
     '' has been deleted from the BigFix Console. It was removed from your list. Please create it again.''"

definition not_found_error :: "string \<Rightarrow> string" where
  "not_found_error n = ''Group '' @ sq @ n @ sq @ '' does not exist in BigFix.''"

definition selfHeal ::
  "db_fault \<Rightarrow> string \<Rightarrow> ownership_row list \<Rightarrow> string \<times> ownership_row list \<times> effect list" where
  "selfHeal fault n tbl =
     (case fault of
        PoolFails e \<Rightarrow> (e, tbl, [])
      | SelectFails e \<Rightarrow> (e, tbl, [OwnershipSelect n])
      | DeleteFails e \<Rightarrow>
          if filter (is_group_named n) tbl \<noteq> [] then
            (e, tbl, [OwnershipSelect n, OwnershipDelete n])
          else (not_found_error n, tbl, [OwnershipSelect n])
      | NoFault \<Rightarrow>
          if filter (is_group_named n) tbl \<noteq> [] then
            (ghost_error n, filter (\<lambda>r. \<not> is_group_named n r) tbl,
             [OwnershipSelect n, OwnershipDelete n])
          else (not_found_error n, tbl, [OwnershipSelect n]))"

text \<open>
  The store step of \<open>triggerBaselineAction\<close> (\<open>if (actionId) { ... }\<close>): the in-memory entry is
  written unconditionally; the durable insert is attempted and a failure (the driver's,
  or the primary key's) is only logged.
  \<^verbatim>\<open>
  actionStore.lastActionId = actionId;
  actionStore.actions[actionId] = metadata;
  try {
    const pool = await getPool();
    await pool.request().input('ActionID', sql.Int, Number(actionId))
      .input('Metadata', sql.NVarChar(sql.MAX), JSON.stringify(metadata)).input('PostMailSent', sql.Bit, 0)
      .query(`INSERT INTO dbo.ActionHistory (ActionID, Metadata, PostMailSent, CreatedAt) VALUES (@ActionID, @Metadata, @PostMailSent, SYSUTCDATETIME())`);
  } catch (dbErr) { log(...); }
  \<close>
\<close>

definition persistAction ::
  "bool \<Rightarrow> int \<Rightarrow> nat \<Rightarrow> action_entry \<Rightarrow> app_state \<Rightarrow> app_state \<times> effect list" where
  "persistAction ok now actionId metadata st =
     (let st1 = st\<lparr>lastActionId := Some actionId,
                    actions := AList.update actionId metadata (actions st)\<rparr>;
          inserted = (ok \<and> actionId \<notin> set (map ActionID (ActionHistory st)))
      in (if inserted then
            st1\<lparr>ActionHistory := ActionHistory st1 @
              [\<lparr>ActionID = actionId, Metadata = JsonOf metadata, PostMailSent = False,
                CreatedAt = now\<rparr>]\<rparr>
          else st1,
          [HistoryInsert actionId inserted]))"

text \<open>
  Steps 3 to 7 of \<open>triggerBaselineAction\<close>, from the resolved baseline \<open>(siteName, fixletId)\<close>
  and the first group row \<open>partsG\<close>: the optional member list for the attachment, the
  target expression, the document, its submission, the store step and the pre-patch
  mail. \<open>fx\<close> are the effects of steps 1 and 2.
\<close>

definition submitAndStore ::
  "trigger_env \<Rightarrow> string \<Rightarrow> string \<Rightarrow> string \<Rightarrow> string list \<Rightarrow> jsval \<Rightarrow> string \<Rightarrow> jsval \<Rightarrow> jsval \<Rightarrow>
   effect list \<Rightarrow> app_state \<Rightarrow> (string + trigger_out) \<times> app_state \<times> effect list" where
  "submitAndStore env bName siteName fixletId partsG autoMail environment offset who fx st =
     (let gName = partsG ! 0; gId = partsG ! 1; gSite = partsG ! 2; gType = partsG ! 3;
          fx3 = (if truthy autoMail then [MembersLookup gId] else []);
          relevance = customRelevance gName gId gSite gType;
          stageName = (if environment \<noteq> [] then environment else ''Pilot'');
          actionTitle = ''BPS_'' @ bName @ ''_'' @ stageName;
          xmlOffset = js_or offset (JStr ''P2D'');
          doc = actionXml siteName fixletId relevance (js_string xmlOffset) actionTitle;
          fx6 = fx @ fx3 @ [SubmitAction doc]
      in case submitResp env of
           NetworkError e \<Rightarrow> (Inl e, st, fx6)
         | Response status (body, actionId) \<Rightarrow>
             if status < 200 \<or> status \<ge> 300 then
               (Inl (''BigFix POST failed: HTTP '' @ show_int status @ '' '' @ take 200 body), st, fx6)
             else
               let (st', fx7) =
                     (case actionId of
                        None \<Rightarrow> (st, [])
                      | Some aid \<Rightarrow>
                          persistAction (insertOk env) (dbNow env) aid
                            \<lparr>entry_id = aid, createdAt = isoNow env, stage = stageName, xml = doc,
                              baselineName = bName, baselineSite = siteName,
                              baselineFixletId = fixletId, groupName = gName, groupId = gId,
                              groupSite = gSite, groupType = gType, endOffset = xmlOffset,
                              preMail = Some (truthy autoMail), smtpEnabled = Some (smtpReady env),
                              postMailSent = False,
                              triggeredBy = js_or who (JStr ''Unknown'')\<rparr> st);
                   fx8 = (if truthy autoMail \<and> smtpReady env then [TriggerMail] else [])
               in (Inr \<lparr>out_actionId = actionId, out_siteName = siteName, out_fixletId = fixletId,
                         out_group = gName, out_title = actionTitle, out_stage = stageName,
                         out_endOffset = xmlOffset, out_createdAt = isoNow env\<rparr>,
                   st', fx6 @ fx7 @ fx8))"

text \<open>
  The message of the \<open>TypeError\<close> that \<open>name.replace(...)\<close> throws on a value that is not a
  string.
\<close>

fun replace_error :: "string \<Rightarrow> jsval \<Rightarrow> string" where
  "replace_error name JUndefined = ''Cannot read properties of undefined (reading '' @ sq @ ''replace'' @ sq @ '')''"
| "replace_error name JNull = ''Cannot read properties of null (reading '' @ sq @ ''replace'' @ sq @ '')''"
| "replace_error name v = name @ ''.replace is not a function''"

text \<open>
  \<open>triggerBaselineAction\<close>. A thrown error is \<open>Inl\<close> of its message. The names arrive from
  the request body: \<open>baselineName.replace\<close> and \<open>groupName.replace\<close> throw a \<open>TypeError\<close> on a
  value that is not a string. The status of the group lookup is not tested by the source:
  any response without rows enters the self-healing branch.
\<close>

definition triggerBaselineAction ::
  "trigger_env \<Rightarrow> jsval \<Rightarrow> jsval \<Rightarrow> jsval \<Rightarrow> string \<Rightarrow> jsval \<Rightarrow> jsval \<Rightarrow> app_state \<Rightarrow>
   (string + trigger_out) \<times> app_state \<times> effect list" where
  "triggerBaselineAction env bNameV gNameV autoMail environment offset who st =
     (case bNameV of
        JStr bName \<Rightarrow>
          (case baselineLookup env bName of
             Inl e \<Rightarrow> (Inl e, st, [BaselineLookup bName])
           | Inr (siteName, fixletId) \<Rightarrow>
               (case gNameV of
                  JStr gName \<Rightarrow>
                    (case groupResp env of
                       NetworkError e \<Rightarrow> (Inl e, st, [BaselineLookup bName, GroupLookup gName])
                     | Response status groupRows \<Rightarrow>
                         (case groupRows of
                            [] \<Rightarrow>
                              (let (e, tbl, fx) =
                                     selfHeal (ownershipFault env) gName (AssetOwnership st)
                               in (Inl e, st\<lparr>AssetOwnership := tbl\<rparr>,
                                   [BaselineLookup bName, GroupLookup gName] @ fx))
                          | partsG # _ \<Rightarrow>
                              if length partsG < 4 then
                                (Inl ''Unexpected group query shape'', st,
                                 [BaselineLookup bName, GroupLookup gName])
                              else
                                submitAndStore env bName siteName fixletId partsG autoMail
                                  environment offset who
                                  [BaselineLookup bName, GroupLookup gName] st))
                | _ \<Rightarrow> (Inl (replace_error ''groupName'' gNameV), st,
                         [BaselineLookup bName])))
      | _ \<Rightarrow> (Inl (replace_error ''baselineName'' bNameV), st, []))"

text \<open>
  The completion offset chosen by \<open>handleStageTrigger\<close>; \<open>None\<close> is the early return with
  the validation error.
  \<^verbatim>\<open>
  const timeInput = patchWindow || endOffset;
  let chosenOffset = endOffset;
  const pwMs = getPatchWindowMs(timeInput);
  if (pwMs > 0) {
    const tzMs = localUtcOffsetMs();
    const deltaMs = pwMs - tzMs;
    chosenOffset = msToXSDuration(deltaMs);
  } else if (!chosenOffset) {
    return res.status(400).json({ ok: false, error: "Patch Window duration must be greater than zero." });
  }
  \<close>
\<close>

definition chooseOffset :: "(string \<Rightarrow> int option) \<Rightarrow> int \<Rightarrow> jsval \<Rightarrow> jsval \<Rightarrow> jsval option" where
  "chooseOffset conv offsetMin patchWindow offset =
     (let timeInput = js_or patchWindow offset;
          chosenOffset = offset;
          pwMs = getPatchWindowMs conv timeInput
      in if pwMs > 0 then
           (let tzMs = localUtcOffsetMs offsetMin;
                deltaMs = pwMs - tzMs
            in Some (JStr (msToXSDuration deltaMs)))
         else if \<not> truthy chosenOffset then None
         else Some chosenOffset)"

datatype response =
    BadRequest string
  | ChgInvalid string string
  | ServerError string
  | Success trigger_out

definition window_error :: string where
  "window_error = ''Patch Window duration must be greater than zero.''"

text \<open>
  The change gate of \<open>handleStageTrigger\<close>: the response that ends the request there, if
  any, and the effects. \<open>validateChangeNumber\<close> is the change service's verdict.
  \<^verbatim>\<open>
  if (requireChg && !isForced) {
    if (!chgNumber || !/^CHG/i.test(String(chgNumber))) {
      return res.status(400).json({ ok: false, error: "Valid chgNumber required when requireChg=true and not forcing" });
    }
    const chk = await validateChangeNumber(String(chgNumber).toUpperCase(), ctx);
    if (!chk.ok) {
      return res.status(400).json({ ok: false, chgOk: false, code: chk.code || "CHG_INVALID", message: chk.message || "CHG validation failed" });
    }
  }
  \<close>
\<close>

definition changeGate ::
  "trigger_env \<Rightarrow> bool \<Rightarrow> (string \<times> jsval) list \<Rightarrow> response option \<times> effect list" where
  "changeGate env isForced body =
     (let chgNumber = js_get body ''chgNumber'';
          requireChg = (case js_get body ''requireChg'' of JUndefined \<Rightarrow> JBool True | v \<Rightarrow> v)
      in
      if truthy requireChg \<and> \<not> isForced then
        (if \<not> truthy chgNumber \<or> map to_lower (take 3 (js_string chgNumber)) \<noteq> ''chg'' then
           (Some (BadRequest ''Valid chgNumber required when requireChg=true and not forcing''), [])
         else
           (case chgVerdict env of
              ChgThrows e \<Rightarrow> (Some (ServerError e), [ChgValidation (js_string chgNumber)])
            | ChgRejected code message \<Rightarrow>
                (Some (ChgInvalid (if code \<noteq> [] then code else ''CHG_INVALID'')
                         (if message \<noteq> [] then message else ''CHG validation failed'')),
                 [ChgValidation (js_string chgNumber)])
            | ChgOk \<Rightarrow> (None, [ChgValidation (js_string chgNumber)])))
      else (None, []))"

text \<open>
  \<open>handleStageTrigger\<close>, on the request body (an object, \<open>{}\<close> when absent): the required
  names, the change gate, the completion offset, then \<open>triggerBaselineAction\<close>; an error
  thrown on the way is answered with status 500 and its message.
\<close>

definition handleStageTrigger ::
  "trigger_env \<Rightarrow> bool \<Rightarrow> string \<Rightarrow> (string \<times> jsval) list \<Rightarrow> app_state \<Rightarrow>
   response \<times> app_state \<times> effect list" where
  "handleStageTrigger env isForced environment body st =
     (let bNameV = js_get body ''baselineName'';
          gNameV = js_get body ''groupName'';
          autoMail = js_get body ''autoMail'';
          patchWindow = js_get body ''patchWindow'';
          offset = js_get body ''endOffset'';
          who = js_get body ''triggeredBy''
      in
      if \<not> truthy bNameV \<or> \<not> truthy gNameV then
        (BadRequest ''baselineName and groupName are required'', st, [])
      else
        (case changeGate env isForced body of
           (Some r, fx) \<Rightarrow> (r, st, fx)
         | (None, fx) \<Rightarrow>
             (case chooseOffset (s2n env) (timezoneOffset env) patchWindow offset of
                None \<Rightarrow> (BadRequest window_error, st, fx)
              | Some chosenOffset \<Rightarrow>
                  (case triggerBaselineAction env bNameV gNameV autoMail environment
                          chosenOffset who st of
                     (Inl e, st', fx') \<Rightarrow> (ServerError e, st', fx @ fx')
                   | (Inr out, st', fx') \<Rightarrow> (Success out, st', fx @ fx')))))"

section \<open>The Lifecycle Watcher\<close>

text \<open>
  \<^verbatim>\<open>
  function pickTag(text, tag) {
    const m = new RegExp(`<${tag}>([\\s\\S]*?)</${tag}>`, "i").exec(text);
    return m ? m[1].trim() : null;
  }
  const pickStatusTop = (xml) => pickTag(xml, "Status");
  \<close>
  The leftmost match opens at the first opening tag (if that one has no closing tag after
  it, no later one has) and, the group being lazy, closes at the first closing tag.
\<close>

fun text_after :: "string \<Rightarrow> string \<Rightarrow> string option" where
  "text_after p [] = (if p = [] then Some [] else None)"
| "text_after p (c # cs) =
     (if map to_lower (take (length p) (c # cs)) = map to_lower p then Some (drop (length p) (c # cs))
      else text_after p cs)"

fun text_before :: "string \<Rightarrow> string \<Rightarrow> string option" where
  "text_before p [] = (if p = [] then Some [] else None)"
| "text_before p (c # cs) =
     (if map to_lower (take (length p) (c # cs)) = map to_lower p then Some []
      else map_option ((#) c) (text_before p cs))"

definition pickTag :: "string \<Rightarrow> string \<Rightarrow> string option" where
  "pickTag text tag =
     (case text_after (''<'' @ tag @ ''>'') text of
        None \<Rightarrow> None
      | Some rest \<Rightarrow> map_option trim (text_before (''</'' @ tag @ ''>'') rest))"

definition pickStatusTop :: "string \<Rightarrow> string option" where
  "pickStatusTop doc = pickTag doc ''Status''"

text \<open>
  \<^verbatim>\<open>
  function shouldSend(entry) {
    if (!CONFIG.postPatchMail) return false;
    if (!entry) return false;
    if (entry.postMailSent) return false;
    if (typeof entry.preMail === 'boolean' && !entry.preMail) return false;
    if (typeof entry.smtpEnabled === 'boolean' && !entry.smtpEnabled) return false;
    return true;
  }
  \<close>
  The global switch \<open>CONFIG.postPatchMail\<close> is the first argument.
\<close>

definition shouldSend :: "bool \<Rightarrow> action_entry option \<Rightarrow> bool" where
  "shouldSend postPatchMail entry =
     (if \<not> postPatchMail then False
      else case entry of
             None \<Rightarrow> False
           | Some e \<Rightarrow>
               if postMailSent e then False
               else if preMail e = Some False then False
               else if smtpEnabled e = Some False then False
               else True)"

text \<open>
  \<^verbatim>\<open>
  async function markSent(id) {
    if (actionStore.actions[id]) actionStore.actions[id].postMailSent = true;
    try {
      const pool = await getPool();
      await pool.request().input('ActionID', sql.Int, Number(id))
        .query('UPDATE dbo.ActionHistory SET PostMailSent = 1 WHERE ActionID = @ActionID');
    } catch (dbErr) { console.warn(...); }
  }
  \<close>
  \<open>ok\<close> says whether the update went through.
\<close>

definition markSent :: "bool \<Rightarrow> nat \<Rightarrow> app_state \<Rightarrow> app_state \<times> effect list" where
  "markSent ok i st =
     (let (st1, fx1) =
            (case map_of (actions st) i of
               None \<Rightarrow> (st, [])
             | Some e \<Rightarrow>
                 (st\<lparr>actions := AList.update i (e\<lparr>postMailSent := True\<rparr>) (actions st)\<rparr>,
                  [FlagSet i]));
          st2 = (if ok then
                   st1\<lparr>ActionHistory :=
                     map (\<lambda>r. if ActionID r = i then r\<lparr>PostMailSent := True\<rparr> else r)
                       (ActionHistory st1)\<rparr>
                 else st1)
      in (st2, fx1 @ [HistoryUpdate i ok]))"

text \<open>
  The answers of the collaborators during one tick, per action id: the status request
  (\<open>getActionStatusXml\<close> rejects, or gives \<open>{ok, text}\<close>), whether \<open>sendPostPatchMail\<close>
  resolves, and whether the update of \<open>markSent\<close> goes through. \<open>fetchActionResults\<close>
  catches its own errors and only feeds the attachment.
\<close>

datatype poll_result = PollThrows | PollResponse bool string

record tick_env =
  poll :: "nat \<Rightarrow> poll_result"
  mailOk :: "nat \<Rightarrow> bool"
  updateOk :: "nat \<Rightarrow> bool"

text \<open>
  The body of the loop of \<open>tick\<close> for one id. The first component of the result is
  \<open>False\<close> when the status request rejected: the exception leaves the loop and is caught
  by the \<open>try\<close> around it, so the tick ends there. The mail is built from the entry by
  string helpers that do not throw; the \<open>try\<close> around \<open>sendPostPatchMail\<close> catches a failed
  send, and \<open>markSent\<close> follows in both cases.
  \<^verbatim>\<open>
  const entry = actionStore.actions[id];
  if (!shouldSend(entry)) continue;
  const { ok, text } = await getActionStatusXml(ctx.bigfix, id);
  if (!ok || !text) continue;
  const overall = (pickStatusTop(text) || "").toLowerCase();
  if (overall !== "expired") continue;
  ...
  const { rows: resultRows } = await fetchActionResults(ctx.bigfix, id);
  try { await sendPostPatchMail(ctx.smtp, {...}); } catch (mailErr) { console.warn(...); }
  await markSent(id);
  \<close>
\<close>

definition tick_record ::
  "bool \<Rightarrow> tick_env \<Rightarrow> nat \<Rightarrow> app_state \<Rightarrow> bool \<times> app_state \<times> effect list" where
  "tick_record postPatchMail env i st =
     (let entry = map_of (actions st) i in
      if \<not> shouldSend postPatchMail entry then (True, st, [])
      else
        (case poll env i of
           PollThrows \<Rightarrow> (False, st, [StatusPoll i])
         | PollResponse ok txt \<Rightarrow>
             if \<not> ok \<or> txt = [] then (True, st, [StatusPoll i])
             else
               let overall = map to_lower (case pickStatusTop txt of None \<Rightarrow> [] | Some s \<Rightarrow> s) in
               if overall \<noteq> ''expired'' then (True, st, [StatusPoll i])
               else
                 let (st', fx) = markSent (updateOk env i) i st
                 in (True, st', [StatusPoll i, ResultsFetch i, PostPatchMail i (mailOk env i)] @ fx)))"

fun tick_loop ::
  "bool \<Rightarrow> tick_env \<Rightarrow> nat list \<Rightarrow> app_state \<Rightarrow> app_state \<times> effect list" where
  "tick_loop postPatchMail env [] st = (st, [])"
| "tick_loop postPatchMail env (i # ids) st =
     (case tick_record postPatchMail env i st of
        (False, st', fx) \<Rightarrow> (st', fx)
      | (True, st', fx) \<Rightarrow>
          (let (st'', fx') = tick_loop postPatchMail env ids st' in (st'', fx @ fx')))"

text \<open>
  \<open>tick\<close>: \<open>Object.keys\<close> lists the integer keys of the store in ascending order. One tick
  is modelled as running to its end before anything else touches the store.
\<close>

definition tick :: "bool \<Rightarrow> tick_env \<Rightarrow> app_state \<Rightarrow> app_state \<times> effect list" where
  "tick postPatchMail env st =
     tick_loop postPatchMail env (sort (remdups (map fst (actions st)))) st"

text \<open>
  \<^verbatim>\<open>
  const rs = await pool.request()
    .query('SELECT ActionID, Metadata, PostMailSent FROM dbo.ActionHistory WHERE PostMailSent = 0');
  for (const row of rs.recordset) {
    try {
      const metadata = JSON.parse(row.Metadata);
      actionStore.actions[row.ActionID] = { ...metadata, postMailSent: row.PostMailSent };
      count++;
    } catch (parseErr) { console.warn(...); }
  }
  \<close>
  A failure of the pool or of the query is caught around the whole loop and logged.
\<close>

fun load_rows :: "history_row list \<Rightarrow> (nat \<times> action_entry) list \<Rightarrow> (nat \<times> action_entry) list" where
  "load_rows [] acts = acts"
| "load_rows (row # rows) acts =
     (case Metadata row of
        JsonOf metadata \<Rightarrow>
          load_rows rows
            (AList.update (ActionID row) (metadata\<lparr>postMailSent := PostMailSent row\<rparr>) acts)
      | NotJson \<Rightarrow> load_rows rows acts)"

definition loadCacheFromDb :: "bool \<Rightarrow> app_state \<Rightarrow> app_state \<times> effect list" where
  "loadCacheFromDb ok st =
     (if \<not> ok then (st, [HistorySelect False])
      else
        (st\<lparr>actions := load_rows (filter (\<lambda>r. \<not> PostMailSent r) (ActionHistory st)) (actions st)\<rparr>,
         [HistorySelect True]))"

text \<open>
  \<^verbatim>\<open>
  async function cleanupOldActions() {
    const retentionDays = Number(CONFIG.postpatchRetentionDays || 30);
    if (retentionDays <= 0) return;
    try {
      const pool = await getPool();
      const result = await pool.request().input('RetentionDays', sql.Int, retentionDays)
        .query(`DELETE FROM dbo.ActionHistory WHERE PostMailSent = 1 AND CreatedAt < DATEADD(day, -@RetentionDays, SYSUTCDATETIME())`);
      ...
    } catch (dbErr) { console.warn(`[postpatch] Cleanup failed:`, dbErr.message); }
  }
  \<close>
  The setting is a number when present; \<open>now\<close> is the database clock.
\<close>

definition retentionDays :: "int option \<Rightarrow> int" where
  "retentionDays setting = (case setting of None \<Rightarrow> 30 | Some n \<Rightarrow> if n = 0 then 30 else n)"

definition expired_row :: "int \<Rightarrow> int \<Rightarrow> history_row \<Rightarrow> bool" where
  "expired_row days now r = (PostMailSent r \<and> CreatedAt r < now - days * 86400000)"

definition cleanupOldActions ::
  "int option \<Rightarrow> bool \<Rightarrow> int \<Rightarrow> app_state \<Rightarrow> app_state \<times> effect list" where
  "cleanupOldActions setting ok now st =
     (if retentionDays setting \<le> 0 then (st, [])
      else if \<not> ok then (st, [HistoryDelete False])
      else
        (st\<lparr>ActionHistory :=
            filter (\<lambda>r. \<not> expired_row (retentionDays setting) now r) (ActionHistory st)\<rparr>,
         [HistoryDelete True]))"

text \<open>
  What happens to the store while the process runs: timer ticks, timer cleanups, and the
  Dispatcher's store step for a newly accepted action, whose metadata literal carries
  \<open>id: actionId\<close> and \<open>postMailSent: false\<close>.
\<close>

datatype operation =
    Tick bool tick_env
  | Cleanup "int option" bool int
  | Persist bool int nat action_entry

fun apply_operation :: "operation \<Rightarrow> app_state \<Rightarrow> app_state \<times> effect list" where
  "apply_operation (Tick postPatchMail env) st = tick postPatchMail env st"
| "apply_operation (Cleanup setting ok now) st = cleanupOldActions setting ok now st"
| "apply_operation (Persist ok now actionId metadata) st =
     persistAction ok now actionId (metadata\<lparr>entry_id := actionId, postMailSent := False\<rparr>) st"

fun run :: "operation list \<Rightarrow> app_state \<Rightarrow> app_state \<times> effect list" where
  "run [] st = (st, [])"
| "run (op # ops) st =
     (let (st', fx) = apply_operation op st; (st'', fx') = run ops st' in (st'', fx @ fx'))"

text \<open>
  \<^verbatim>\<open>
  loadCacheFromDb().finally(() => {
    const handle = setInterval(tick, Math.max(10_000, Number(intervalMs) || 60_000));
    cleanupOldActions();
    setInterval(cleanupOldActions, cleanupIntervalMs);
  });
  \<close>
  The timers are set only when the load has ended, so every tick and every cleanup of a
  process comes after it.
\<close>

definition startPostPatchWatcher ::
  "bool \<Rightarrow> operation list \<Rightarrow> app_state \<Rightarrow> app_state \<times> effect list" where
  "startPostPatchWatcher loadOk ops st =
     (let (st1, fx1) = loadCacheFromDb loadOk st; (st2, fx2) = run ops st1 in (st2, fx1 @ fx2))"

section \<open>Decoding a duration\<close>

text \<open>
  Modelled from the spec: the source has no decoder of the duration strings it emits.
  This one reads the grammar the specification gives for them (an optional minus, \<open>P\<close>, an
  optional \<open><n>D\<close>, then \<open>T\<close> followed by up to three of \<open><n>H\<close>, \<open><n>M\<close>, \<open><n>S\<close>), also
  without the \<open>T\<close> part, and returns the milliseconds it denotes.
\<close>

definition is_digit :: "char \<Rightarrow> bool" where
  "is_digit c = (c \<in> set ''0123456789'')"

definition digit_val :: "char \<Rightarrow> nat" where
  "digit_val c = (of_char c :: nat) - 48"

definition nat_of_digits :: "string \<Rightarrow> nat" where
  "nat_of_digits ds = foldl (\<lambda>a c. 10 * a + digit_val c) 0 ds"

definition component :: "char \<Rightarrow> string \<Rightarrow> nat \<times> string" where
  "component u s =
     (let ds = takeWhile is_digit s; rest = dropWhile is_digit s
      in case rest of
           [] \<Rightarrow> (0, s)
         | x # rest' \<Rightarrow> if ds \<noteq> [] \<and> x = u then (nat_of_digits ds, rest') else (0, s))"

definition decodeDuration :: "string \<Rightarrow> int option" where
  "decodeDuration s =
     (let neg = (case s of [] \<Rightarrow> False | c # _ \<Rightarrow> c = CHR ''-'');
          s1 = (if neg then tl s else s)
      in case s1 of
           [] \<Rightarrow> None
         | p # s2 \<Rightarrow>
             if p \<noteq> CHR ''P'' then None
             else
               let (d, s3) = component CHR ''D'' s2;
                   sign = (if neg then - 1 else 1)
               in (case s3 of
                     [] \<Rightarrow> Some (sign * (int d * 86400000))
                   | t # s4 \<Rightarrow>
                       if t \<noteq> CHR ''T'' then None
                       else
                         let (h, s5) = component CHR ''H'' s4;
                             (m, s6) = component CHR ''M'' s5;
                             (sec, s7) = component CHR ''S'' s6
                         in if s7 = [] then
                              Some (sign * (int d * 86400000 + int h * 3600000 +
                                            int m * 60000 + int sec * 1000))
                            else None))"

section \<open>Shapes used in the statements\<close>

text \<open>
  The text of a duration with sign \<open>neg\<close> and components \<open>d\<close>, \<open>h\<close>, \<open>m\<close>, \<open>s\<close>: the days
  part is left out when \<open>d = 0\<close>; the \<open>T\<close> part holds the non-zero ones of the three time
  components and is left out when all three are zero, unless nothing would remain, which
  gives \<open>T0S\<close>.
\<close>

definition duration_text :: "bool \<Rightarrow> nat \<Rightarrow> nat \<Rightarrow> nat \<Rightarrow> nat \<Rightarrow> string" where
  "duration_text neg d h m s =
     (if neg then ''-'' else []) @ ''P'' @
     (if d \<noteq> 0 then show_nat d @ ''D'' else []) @
     (if h = 0 \<and> m = 0 \<and> s = 0 then (if d = 0 then ''T0S'' else [])
      else ''T'' @ (if h \<noteq> 0 then show_nat h @ ''H'' else []) @
                   (if m \<noteq> 0 then show_nat m @ ''M'' else []) @
                   (if s \<noteq> 0 then show_nat s @ ''S'' else []))"

section \<open>Sample data\<close>

definition sample_entry :: "nat \<Rightarrow> action_entry" where
  "sample_entry i =
     \<lparr>entry_id = i, createdAt = ''2025-01-01T00:00:00.000Z'', stage = ''Pilot'', xml = [],
      baselineName = ''Patch_A'', baselineSite = ''Enterprise'', baselineFixletId = ''101'',
      groupName = ''SRV-GRP'', groupId = ''42'', groupSite = ''ActionSite'',
      groupType = ''Automatic'', endOffset = JStr ''PT2H'', preMail = Some True,
      smtpEnabled = Some True, postMailSent = False, triggeredBy = JStr ''Unknown''\<rparr>"

definition sample_row :: "nat \<Rightarrow> bool \<Rightarrow> int \<Rightarrow> history_row" where
  "sample_row i sent t =
     \<lparr>ActionID = i, Metadata = JsonOf (sample_entry i), PostMailSent = sent, CreatedAt = t\<rparr>"

text \<open>Three rows, created at times 0, 0 and 3000000000 ms; the second is not finalized.\<close>

definition retention_state :: app_state where
  "retention_state =
     \<lparr>actions = [], lastActionId = None,
      ActionHistory = [sample_row 1 True 0, sample_row 2 False 0, sample_row 3 True 3000000000],
      AssetOwnership = []\<rparr>"

section \<open>Notions used in the lifecycle statements\<close>

text \<open>The action an effect of the store's life cycle is about.\<close>

fun about_action :: "effect \<Rightarrow> nat option" where
  "about_action (HistoryInsert i ok) = Some i"
| "about_action (StatusPoll i) = Some i"
| "about_action (ResultsFetch i) = Some i"
| "about_action (PostPatchMail i ok) = Some i"
| "about_action (FlagSet i) = Some i"
| "about_action (HistoryUpdate i ok) = Some i"
| "about_action _ = None"

text \<open>An operation that is the Dispatcher's store step for action \<open>i\<close>.\<close>

fun persists :: "nat \<Rightarrow> operation \<Rightarrow> bool" where
  "persists i (Persist ok now actionId metadata) = (actionId = i)"
| "persists i _ = False"

text \<open>An operation that is not a tick run with \<open>CONFIG.postPatchMail\<close> switched on.\<close>

fun switch_off :: "operation \<Rightarrow> bool" where
  "switch_off (Tick postPatchMail env) = (\<not> postPatchMail)"
| "switch_off _ = True"

text \<open>
  A status answer that \<open>tick\<close> reads as terminal: the request succeeded, the body is not
  empty and its \<open>Status\<close> element is \<open>expired\<close> in any letter case.
\<close>

fun expired_status :: "poll_result \<Rightarrow> bool" where
  "expired_status PollThrows = False"
| "expired_status (PollResponse ok txt) =
     (ok \<and> txt \<noteq> [] \<and>
      map to_lower (case pickStatusTop txt of None \<Rightarrow> [] | Some s \<Rightarrow> s) = ''expired'')"

text \<open>A status document of an expired action, and collaborators whose mail send fails.\<close>

definition expired_doc :: string where
  "expired_doc = ''<BESAPI><ActionResults><ActionID>7</ActionID><Status>Expired</Status></ActionResults></BESAPI>''"

definition failing_mail_env :: tick_env where
  "failing_mail_env =
     \<lparr>poll = (\<lambda>i. PollResponse True expired_doc), mailOk = (\<lambda>i. False), updateOk = (\<lambda>i. True)\<rparr>"

definition pending_state :: app_state where
  "pending_state =
     \<lparr>actions = [(7, sample_entry 7)], lastActionId = Some 7,
      ActionHistory = [sample_row 7 False 0], AssetOwnership = []\<rparr>"


definition later_operations :: "operation list" where
  "later_operations =
     [Tick True failing_mail_env, Cleanup None True 1000, Persist True 1000 8 (sample_entry 8),
      Tick True failing_mail_env]"

text \<open>A record whose creator asked for no mail.\<close>

definition muted_state :: app_state where
  "muted_state =
     \<lparr>actions = [(9, (sample_entry 9)\<lparr>preMail := Some False\<rparr>)], lastActionId = Some 9,
      ActionHistory = [sample_row 9 False 0], AssetOwnership = []\<rparr>"

text \<open>
  A table as the program builds it: ids are distinct (the primary key) and every row holds
  the serialized metadata of the Dispatcher, whose literal has \<open>postMailSent: false\<close>.
\<close>

definition dispatcher_row :: "history_row \<Rightarrow> bool" where
  "dispatcher_row r = (case Metadata r of JsonOf m \<Rightarrow> \<not> postMailSent m | NotJson \<Rightarrow> False)"

definition history_ok :: "history_row list \<Rightarrow> bool" where
  "history_ok rows = (distinct (map ActionID rows) \<and> list_all dispatcher_row rows)"



section \<open>The Watcher between its awaits\<close>

text \<open>
  \<open>tick\<close> is an \<open>async\<close> function, and \<open>setInterval(tick, ...)\<close> calls it again after every
  polling interval whether or not an earlier call has returned: the source has no guard
  against two calls being under way at once. Between two \<open>await\<close>s the code of a call runs
  without interruption; while a call waits, other calls of \<open>tick\<close>, the cleanup and the
  store step of the Dispatcher run. This section models a call of \<open>tick\<close> one \<open>await\<close> at a
  time.

  The two parts of \<open>markSent\<close>: the assignment to the entry, which happens when \<open>markSent\<close> is
  called, and the update of the table, which is awaited.
\<close>

definition markSent_memory :: "nat \<Rightarrow> app_state \<Rightarrow> app_state \<times> effect list" where
  "markSent_memory i st =
     (case map_of (actions st) i of
        None \<Rightarrow> (st, [])
      | Some e \<Rightarrow>
          (st\<lparr>actions := AList.update i (e\<lparr>postMailSent := True\<rparr>) (actions st)\<rparr>, [FlagSet i]))"

definition markSent_update :: "bool \<Rightarrow> nat \<Rightarrow> app_state \<Rightarrow> app_state \<times> effect list" where
  "markSent_update ok i st =
     (if ok then
        st\<lparr>ActionHistory :=
          map (\<lambda>r. if ActionID r = i then r\<lparr>PostMailSent := True\<rparr> else r) (ActionHistory st)\<rparr>
      else st,
      [HistoryUpdate i ok])"

text \<open>
  A call of \<open>tick\<close> that is under way is suspended in the iteration for the id \<open>current\<close>, at
  one of the four \<open>await\<close>s of the loop body: \<open>getActionStatusXml\<close>, \<open>fetchActionResults\<close>,
  \<open>sendPostPatchMail\<close>, \<open>markSent\<close>. \<open>remaining\<close> are the ids of \<open>Object.keys\<close> that the loop has
  still to visit, and \<open>answers\<close> what the collaborators answer to this call.
\<close>

datatype await = AwaitStatus | AwaitResults | AwaitMail | AwaitUpdate

record tick_run =
  answers :: tick_env
  current :: nat
  waiting :: await
  remaining :: "nat list"

text \<open>
  The loop from its head: ids that \<open>shouldSend\<close> rejects are passed over without an \<open>await\<close>;
  at the first id it accepts the status request is issued and the call is suspended. The
  call returns when the ids are used up. \<open>shouldSend\<close> reads the entry and
  \<open>CONFIG.postPatchMail\<close> as they are at that moment.
\<close>

fun next_record ::
  "bool \<Rightarrow> tick_env \<Rightarrow> nat list \<Rightarrow> app_state \<Rightarrow> tick_run option \<times> effect list" where
  "next_record postPatchMail env [] st = (None, [])"
| "next_record postPatchMail env (i # ids) st =
     (if shouldSend postPatchMail (map_of (actions st) i) then
        (Some \<lparr>answers = env, current = i, waiting = AwaitStatus, remaining = ids\<rparr>,
         [StatusPoll i])
      else next_record postPatchMail env ids st)"


text \<open>
  The awaited call has settled and the suspended call of \<open>tick\<close> runs on to its next \<open>await\<close>,
  or to its end (\<open>None\<close>). A rejected status request ends the call in the \<open>catch\<close> of \<open>tick\<close>. The
  mail service is invoked when the results have arrived; whether the send succeeds is
  known when it has settled, and \<open>markSent\<close> is called then in both cases.
\<close>

definition resume ::
  "bool \<Rightarrow> tick_run \<Rightarrow> app_state \<Rightarrow> tick_run option \<times> app_state \<times> effect list" where
  "resume postPatchMail r st =
     (let env = answers r; i = current r in
      case waiting r of
        AwaitStatus \<Rightarrow>
          (case poll env i of
             PollThrows \<Rightarrow> (None, st, [])
           | PollResponse ok txt \<Rightarrow>
               if \<not> ok \<or> txt = [] \<or>
                  map to_lower (case pickStatusTop txt of None \<Rightarrow> [] | Some s \<Rightarrow> s) \<noteq> ''expired''
               then (let (r', fx) = next_record postPatchMail env (remaining r) st
                     in (r', st, fx))
               else (Some (r\<lparr>waiting := AwaitResults\<rparr>), st, [ResultsFetch i]))
      | AwaitResults \<Rightarrow>
          (Some (r\<lparr>waiting := AwaitMail\<rparr>), st, [PostPatchMail i (mailOk env i)])
      | AwaitMail \<Rightarrow>
          (let (st', fx) = markSent_memory i st
           in (Some (r\<lparr>waiting := AwaitUpdate\<rparr>), st', fx))
      | AwaitUpdate \<Rightarrow>
          (let (st', fx) = markSent_update (updateOk env i) i st;
               (r', fx') = next_record postPatchMail env (remaining r) st'
           in (r', st', fx @ fx')))"

text \<open>
  A call of \<open>tick\<close> that nothing interrupts: every \<open>await\<close> settles before anything else
  happens. Each step brings the call nearer to its end.
\<close>

fun steps_left :: "tick_run \<Rightarrow> nat" where
  "steps_left r =
     4 * length (remaining r) +
     (case waiting r of AwaitStatus \<Rightarrow> 3 | AwaitResults \<Rightarrow> 2 | AwaitMail \<Rightarrow> 1 | AwaitUpdate \<Rightarrow> 0)"

function finish :: "bool \<Rightarrow> tick_run \<Rightarrow> app_state \<Rightarrow> app_state \<times> effect list" where
  "finish postPatchMail r st =
     (case resume postPatchMail r st of
        (None, st', fx) \<Rightarrow> (st', fx)
      | (Some r', st', fx) \<Rightarrow>
          (let (st'', fx') = finish postPatchMail r' st' in (st'', fx @ fx')))"
  by pat_completeness auto
termination
proof (relation "measure (\<lambda>(sw, r, st). steps_left r)")
  show "wf (measure (\<lambda>(sw, r, st). steps_left r))" by simp
next
  fix sw :: bool and r st x y r' st' fx
  assume "(x, y) = resume sw r st" "x = Some r'" "(st', fx) = y"
  then have res: "resume sw r st = (Some r', st', fx)" by simp
  have shorter: "length (remaining q) < length ids \<and> waiting q = AwaitStatus"
    if "next_record sw env ids s = (Some q, gx)" for env ids s q gx
    using that by (induction ids) (auto split: if_splits)
  have "steps_left r' < steps_left r"
  proof (cases "waiting r")
    case AwaitStatus
    show ?thesis
    proof (cases "poll (answers r) (current r)")
      case PollThrows
      with AwaitStatus res show ?thesis by (simp add: resume_def Let_def)
    next
      case (PollResponse ok body)
      show ?thesis
      proof (cases "\<not> ok \<or> body = [] \<or>
          map to_lower (case pickStatusTop body of None \<Rightarrow> [] | Some s \<Rightarrow> s) \<noteq> ''expired''")
        case True
        with AwaitStatus PollResponse res
        have "next_record sw (answers r) (remaining r) st = (Some r', fx)"
          by (auto simp: resume_def Let_def split_beta prod_eq_iff)
        from shorter[OF this] AwaitStatus show ?thesis by simp
      next
        case False
        with AwaitStatus PollResponse res show ?thesis
          by (auto simp: resume_def Let_def)
      qed
    qed
  next
    case AwaitResults
    with res show ?thesis by (auto simp: resume_def Let_def)
  next
    case AwaitMail
    with res show ?thesis by (auto simp: resume_def Let_def split_beta)
  next
    case AwaitUpdate
    with res
    have "next_record sw (answers r) (remaining r)
            (fst (markSent_update (updateOk (answers r) (current r)) (current r) st)) =
          (Some r', snd (next_record sw (answers r) (remaining r)
            (fst (markSent_update (updateOk (answers r) (current r)) (current r) st))))"
      by (auto simp: resume_def Let_def split_beta prod_eq_iff)
    from shorter[OF this] AwaitUpdate show ?thesis by simp
  qed
  then show "((sw, r', st'), sw, r, st) \<in> measure (\<lambda>(sw, r, st). steps_left r)"
    by (simp del: steps_left.simps)
qed

declare finish.simps [simp del]

definition uninterrupted ::
  "bool \<Rightarrow> tick_env \<Rightarrow> nat list \<Rightarrow> app_state \<Rightarrow> app_state \<times> effect list" where
  "uninterrupted postPatchMail env ids st =
     (case next_record postPatchMail env ids st of
        (None, fx) \<Rightarrow> (st, fx)
      | (Some r, fx) \<Rightarrow> (let (st', fx') = finish postPatchMail r st in (st', fx @ fx')))"















section \<open>Letter case\<close>

text \<open>
  Two characters are the same letter in either case: they are equal, or one is an upper-case
  ASCII letter (codes 65 to 90) and the other one the character 32 codes above it. This is
  stated on the character codes and does not go through \<open>to_lower\<close>.
\<close>

definition same_letter :: "char \<Rightarrow> char \<Rightarrow> bool" where
  "same_letter c d =
     (c = d \<or>
      (65 \<le> (of_char c :: nat) \<and> (of_char c :: nat) \<le> 90 \<and> (of_char d :: nat) = of_char c + 32) \<or>
      (65 \<le> (of_char d :: nat) \<and> (of_char d :: nat) \<le> 90 \<and> (of_char c :: nat) = of_char d + 32))"

section \<open>Verification\<close>

subsection \<open>Decimal numerals\<close>

lemma digit_char_cases:
  "d < 10 \<Longrightarrow> d = 0 \<or> d = 1 \<or> d = 2 \<or> d = 3 \<or> d = 4 \<or> d = 5 \<or> d = 6 \<or> d = 7 \<or> d = 8 \<or> d = (9::nat)"
  by arith

lemma is_digit_digit_char: "d < 10 \<Longrightarrow> is_digit (digit_char d)"
  using digit_char_cases[of d] by (auto simp: is_digit_def digit_char_def)

lemma digit_val_digit_char: "d < 10 \<Longrightarrow> digit_val (digit_char d) = d"
  using digit_char_cases[of d] by (auto simp: digit_val_def digit_char_def)

lemma show_nat_digits: "\<forall>c \<in> set (show_nat n). is_digit c"
proof (induction n rule: show_nat.induct)
  case (1 n)
  show ?case
  proof (cases "n < 10")
    case True
    then show ?thesis by (subst show_nat.simps) (simp add: is_digit_digit_char)
  next
    case False
    with 1 show ?thesis by (subst show_nat.simps) (simp add: is_digit_digit_char)
  qed
qed

lemma show_nat_nonempty: "show_nat n \<noteq> []"
  by (subst show_nat.simps) simp

lemma nat_of_digits_snoc: "nat_of_digits (ds @ [c]) = 10 * nat_of_digits ds + digit_val c"
  by (simp add: nat_of_digits_def)

lemma nat_of_digits_show_nat: "nat_of_digits (show_nat n) = n"
proof (induction n rule: show_nat.induct)
  case (1 n)
  show ?case
  proof (cases "n < 10")
    case True
    then show ?thesis by (subst show_nat.simps) (simp add: nat_of_digits_def digit_val_digit_char)
  next
    case False
    with 1 show ?thesis
      by (subst show_nat.simps) (simp add: nat_of_digits_snoc digit_val_digit_char)
  qed
qed

subsection \<open>Reading back an encoded duration\<close>

lemma takeWhile_show_nat: "\<not> is_digit u \<Longrightarrow> takeWhile is_digit (show_nat n @ u # r) = show_nat n"
  using show_nat_digits[of n] by (simp add: takeWhile_append2)

lemma dropWhile_show_nat: "\<not> is_digit u \<Longrightarrow> dropWhile is_digit (show_nat n @ u # r) = u # r"
  using show_nat_digits[of n] by (simp add: dropWhile_append2)

lemma component_hit: "\<not> is_digit u \<Longrightarrow> component u (show_nat n @ u # r) = (n, r)"
  by (simp add: component_def takeWhile_show_nat dropWhile_show_nat show_nat_nonempty
      nat_of_digits_show_nat)

lemma component_miss:
  "\<not> is_digit v \<Longrightarrow> u \<noteq> v \<Longrightarrow> component u (show_nat n @ v # r) = (0, show_nat n @ v # r)"
  by (simp add: component_def takeWhile_show_nat dropWhile_show_nat)

lemma component_nil: "component u [] = (0, [])"
  by (simp add: component_def)

lemma component_nondigit: "\<not> is_digit v \<Longrightarrow> component u (v # r) = (0, v # r)"
  by (simp add: component_def)

lemma unit_letters_not_digits:
  "\<not> is_digit CHR ''D''" "\<not> is_digit CHR ''T''" "\<not> is_digit CHR ''H''"
  "\<not> is_digit CHR ''M''" "\<not> is_digit CHR ''S''" "\<not> is_digit CHR ''P''"
  by (simp_all add: is_digit_def)

lemma decode_T0S: "decodeDuration ''PT0S'' = Some 0" "decodeDuration ''-PT0S'' = Some 0"
  by (simp_all add: decodeDuration_def component_def is_digit_def nat_of_digits_def digit_val_def)

lemma decode_duration_text:
  "decodeDuration (duration_text neg d h m s) =
     Some ((if neg then - 1 else 1) *
           (int d * 86400000 + int h * 3600000 + int m * 60000 + int s * 1000))"
proof (cases "d = 0 \<and> h = 0 \<and> m = 0 \<and> s = 0")
  case True
  then show ?thesis using decode_T0S by (cases neg) (simp_all add: duration_text_def)
next
  case False
  then show ?thesis
    by (cases neg; cases "d = 0"; cases "h = 0"; cases "m = 0"; cases "s = 0")
       (simp_all add: duration_text_def decodeDuration_def component_hit component_miss
          component_nil component_nondigit unit_letters_not_digits)
qed

lemma msToXSDuration_text:
  assumes nz: "ms \<noteq> 0"
  shows "msToXSDuration ms =
     duration_text (ms < 0) (nat \<bar>ms\<bar> div 1000 div 86400)
        (nat \<bar>ms\<bar> div 1000 mod 86400 div 3600)
        (nat \<bar>ms\<bar> div 1000 mod 86400 mod 3600 div 60)
        (nat \<bar>ms\<bar> div 1000 mod 86400 mod 3600 mod 60)"
proof -
  define d where "d = nat \<bar>ms\<bar> div 1000 div 86400"
  define h where "h = nat \<bar>ms\<bar> div 1000 mod 86400 div 3600"
  define m where "m = nat \<bar>ms\<bar> div 1000 mod 86400 mod 3600 div 60"
  define s where "s = nat \<bar>ms\<bar> div 1000 mod 86400 mod 3600 mod 60"
  have "msToXSDuration ms =
      (if ms < 0 then ''-'' else []) @ ''P'' @
      (if (if h \<noteq> 0 then [show_nat h @ ''H''] else []) @
          (if m \<noteq> 0 then [show_nat m @ ''M''] else []) @
          (if s \<noteq> 0 then [show_nat s @ ''S''] else []) \<noteq> []
       then (if d \<noteq> 0 then show_nat d @ ''D'' else []) @ ''T'' @
            concat ((if h \<noteq> 0 then [show_nat h @ ''H''] else []) @
              (if m \<noteq> 0 then [show_nat m @ ''M''] else []) @
              (if s \<noteq> 0 then [show_nat s @ ''S''] else []))
       else if d = 0 then ''T0S'' else (if d \<noteq> 0 then show_nat d @ ''D'' else []))"
    unfolding msToXSDuration_def Let_def d_def h_def m_def s_def using nz by (simp only: if_False)
  also have "\<dots> = duration_text (ms < 0) d h m s"
    unfolding duration_text_def
    by (cases "d = 0"; cases "h = 0"; cases "m = 0"; cases "s = 0") simp_all
  finally show ?thesis unfolding d_def h_def m_def s_def .
qed

subsection \<open>Retention cleanup\<close>

text \<open>
  Claim C9. A run of the retention cleanup removes from \<open>ActionHistory\<close> only rows whose
  \<open>PostMailSent\<close> flag is set and whose age (the database clock minus \<open>CreatedAt\<close>) exceeds
  the retention window in days; it adds and changes no row, it keeps every row whose flag
  is not set, whatever its age, and it leaves the in-memory store alone. This holds for
  every setting, also when the delete fails or the window is not positive (then nothing
  is deleted).
\<close>

theorem retention_deletes_only_finalized_old_rows:
  "(\<forall>r \<in> set (ActionHistory st).
      r \<notin> set (ActionHistory (fst (cleanupOldActions setting ok now st))) \<longrightarrow>
      PostMailSent r \<and> now - CreatedAt r > retentionDays setting * 86400000) \<and>
   set (ActionHistory (fst (cleanupOldActions setting ok now st))) \<subseteq> set (ActionHistory st) \<and>
   filter (\<lambda>r. \<not> PostMailSent r) (ActionHistory (fst (cleanupOldActions setting ok now st))) =
     filter (\<lambda>r. \<not> PostMailSent r) (ActionHistory st) \<and>
   actions (fst (cleanupOldActions setting ok now st)) = actions st"
  by (auto simp: cleanupOldActions_def expired_row_def intro!: filter_cong)

text \<open>
  At day 40 with the default window of 30 days: the finalized row of day 0 goes, the
  pending row of day 0 and the finalized row of day 34 stay.
\<close>

theorem retention_witness:
  "sample_row 1 True 0 \<in> set (ActionHistory retention_state) \<and>
   sample_row 1 True 0 \<notin>
     set (ActionHistory (fst (cleanupOldActions None True 3456000000 retention_state))) \<and>
   PostMailSent (sample_row 1 True 0) \<and>
   3456000000 - CreatedAt (sample_row 1 True 0) > retentionDays None * 86400000 \<and>
   ActionHistory (fst (cleanupOldActions None True 3456000000 retention_state)) =
     [sample_row 2 False 0, sample_row 3 True 3000000000]"
  using retention_deletes_only_finalized_old_rows [of retention_state None True 3456000000]
  by (simp add: cleanupOldActions_def retentionDays_def expired_row_def retention_state_def
      sample_row_def)

subsection \<open>One record of one tick\<close>

lemma markSent_actions:
  "map_of (actions (fst (markSent ok i st))) j =
     (if j = i then map_option (\<lambda>e. e\<lparr>postMailSent := True\<rparr>) (map_of (actions st) i)
      else map_of (actions st) j)"
  by (auto simp: markSent_def update_conv' split: option.splits)

lemma markSent_history:
  "ActionHistory (fst (markSent ok i st)) =
     (if ok then map (\<lambda>r. if ActionID r = i then r\<lparr>PostMailSent := True\<rparr> else r) (ActionHistory st)
      else ActionHistory st)"
  by (auto simp: markSent_def split: option.splits)

lemma markSent_effects:
  "snd (markSent ok i st) =
     (if map_of (actions st) i = None then [] else [FlagSet i]) @ [HistoryUpdate i ok]"
  by (auto simp: markSent_def split: option.splits)

lemma markSent_ownership:
  "AssetOwnership (fst (markSent ok i st)) = AssetOwnership st"
  by (auto simp: markSent_def split: option.splits)

lemma shouldSend_iff:
  "shouldSend sw entry \<longleftrightarrow>
     sw \<and> (\<exists>e. entry = Some e \<and> \<not> postMailSent e \<and> preMail e \<noteq> Some False \<and>
            smtpEnabled e \<noteq> Some False)"
  by (auto simp: shouldSend_def split: option.splits)

text \<open>The three ways one record can go.\<close>

lemma tick_record_cases:
  obtains
    (skip) "tick_record sw env i st = (True, st, [])" "\<not> shouldSend sw (map_of (actions st) i)"
  | (poll) b where "tick_record sw env i st = (b, st, [StatusPoll i])"
      "shouldSend sw (map_of (actions st) i)" "\<not> expired_status (poll env i)"
      "b = (poll env i \<noteq> PollThrows)"
  | (final) "tick_record sw env i st =
       (True, fst (markSent (updateOk env i) i st),
        [StatusPoll i, ResultsFetch i, PostPatchMail i (mailOk env i), FlagSet i,
         HistoryUpdate i (updateOk env i)])"
      "shouldSend sw (map_of (actions st) i)" "expired_status (poll env i)"
proof (cases "shouldSend sw (map_of (actions st) i)")
  case False
  then show ?thesis using skip by (simp add: tick_record_def)
next
  case True
  then have ex: "map_of (actions st) i \<noteq> None" by (auto simp: shouldSend_iff)
  show ?thesis
  proof (cases "expired_status (poll env i)")
    case False
    with True have "tick_record sw env i st = (poll env i \<noteq> PollThrows, st, [StatusPoll i])"
      by (cases "poll env i") (auto simp: tick_record_def Let_def)
    then show ?thesis using poll True False by blast
  next
    case exp: True
    have fx: "snd (markSent (updateOk env i) i st) = [FlagSet i, HistoryUpdate i (updateOk env i)]"
      using ex by (simp add: markSent_effects)
    from True exp have "tick_record sw env i st =
       (True, fst (markSent (updateOk env i) i st),
        [StatusPoll i, ResultsFetch i, PostPatchMail i (mailOk env i), FlagSet i,
         HistoryUpdate i (updateOk env i)])"
      by (cases "poll env i") (simp_all add: tick_record_def Let_def split_beta fx)
    then show ?thesis using final True exp by blast
  qed
qed

lemma flag_other_rows:
  "j \<noteq> i \<Longrightarrow>
   filter (\<lambda>r. ActionID r = i)
     (map (\<lambda>r. if ActionID r = j then r\<lparr>PostMailSent := True\<rparr> else r) rows) =
   filter (\<lambda>r. ActionID r = i) rows"
  by (induction rows) auto

lemma markSent_history_other:
  "j \<noteq> i \<Longrightarrow> filter (\<lambda>r. ActionID r = i) (ActionHistory (fst (markSent ok j st))) =
     filter (\<lambda>r. ActionID r = i) (ActionHistory st)"
  by (simp add: markSent_history flag_other_rows)

text \<open>Handling record \<open>j\<close> leaves every other record, in memory and in the table, as it was.\<close>

lemma tick_record_frame:
  assumes "j \<noteq> i" "tick_record sw env j st = (b, st', fx)"
  shows "map_of (actions st') i = map_of (actions st) i"
    and "filter (\<lambda>r. ActionID r = i) (ActionHistory st') =
         filter (\<lambda>r. ActionID r = i) (ActionHistory st)"
    and "\<forall>x \<in> set fx. about_action x = Some j"
  using assms
  by (cases rule: tick_record_cases[of sw env j st];
      auto simp: markSent_actions markSent_history_other)+

lemma tick_loop_skipped:
  assumes "\<not> shouldSend sw (map_of (actions st) i)"
  shows "map_of (actions (fst (tick_loop sw env ids st))) i = map_of (actions st) i \<and>
         filter (\<lambda>r. ActionID r = i) (ActionHistory (fst (tick_loop sw env ids st))) =
           filter (\<lambda>r. ActionID r = i) (ActionHistory st) \<and>
         (\<forall>x \<in> set (snd (tick_loop sw env ids st)). about_action x \<noteq> Some i)"
  using assms
proof (induction ids arbitrary: st)
  case Nil
  then show ?case by simp
next
  case (Cons j ids)
  obtain b st' fx where rec: "tick_record sw env j st = (b, st', fx)"
    by (cases "tick_record sw env j st") auto
  show ?case
  proof (cases "j = i")
    case True
    with Cons.prems rec have "b" "st' = st" "fx = []"
      by (cases rule: tick_record_cases[of sw env i st]; simp)+
    with Cons.IH[OF Cons.prems] rec show ?thesis by (simp add: split_beta)
  next
    case False
    note fr = tick_record_frame[OF False rec]
    from fr(1) Cons.prems have skip': "\<not> shouldSend sw (map_of (actions st') i)" by simp
    from fr(3) False have nofx: "\<forall>x \<in> set fx. about_action x \<noteq> Some i" by auto
    show ?thesis
    proof (cases b)
      case True
      with Cons.IH[OF skip'] rec fr nofx show ?thesis by (auto simp: split_beta)
    next
      case False
      with rec fr nofx show ?thesis by simp
    qed
  qed
qed

subsection \<open>Records that the ticks skip\<close>

lemma not_about_not_in:
  "\<forall>x \<in> set fx. about_action x \<noteq> Some i \<Longrightarrow> about_action y = Some i \<Longrightarrow> y \<notin> set fx"
  by auto

lemma tick_skipped:
  assumes "\<not> shouldSend sw (map_of (actions st) i)"
  shows "map_of (actions (fst (tick sw env st))) i = map_of (actions st) i \<and>
         filter (\<lambda>r. ActionID r = i) (ActionHistory (fst (tick sw env st))) =
           filter (\<lambda>r. ActionID r = i) (ActionHistory st) \<and>
         (\<forall>x \<in> set (snd (tick sw env st)). about_action x \<noteq> Some i)"
  unfolding tick_def using tick_loop_skipped[OF assms] by blast

lemma cleanup_keeps_pending:
  "filter (\<lambda>r. P r \<and> \<not> PostMailSent r) (filter (\<lambda>r. \<not> expired_row d now r) rows) =
   filter (\<lambda>r. P r \<and> \<not> PostMailSent r) rows"
  by (induction rows) (auto simp: expired_row_def)

lemma cleanup_frame:
  "actions (fst (cleanupOldActions setting ok now st)) = actions st"
  "\<forall>x \<in> set (snd (cleanupOldActions setting ok now st)). about_action x = None"
  "filter (\<lambda>r. P r \<and> \<not> PostMailSent r) (ActionHistory (fst (cleanupOldActions setting ok now st))) =
   filter (\<lambda>r. P r \<and> \<not> PostMailSent r) (ActionHistory st)"
  by (simp_all add: cleanupOldActions_def cleanup_keeps_pending del: filter_filter)

lemma filter_pending_of:
  "filter (\<lambda>r. ActionID r = i \<and> \<not> PostMailSent r) rows =
   filter (\<lambda>r. \<not> PostMailSent r) (filter (\<lambda>r. ActionID r = i) rows)"
  by (induction rows) auto

text \<open>
  A record that every tick of a run skips, and that the Dispatcher does not write again,
  is left alone by the whole run: the entry stays as it is, no effect is about it, and
  its pending rows stay in the table.
\<close>

lemma run_untouched:
  assumes "map_of (actions st) i = Some e"
    and "\<forall>op \<in> set ops. \<not> persists i op"
    and "\<forall>op \<in> set ops. \<forall>sw env. op = Tick sw env \<longrightarrow> \<not> shouldSend sw (Some e)"
  shows "map_of (actions (fst (run ops st))) i = Some e \<and>
         (\<forall>x \<in> set (snd (run ops st)). about_action x \<noteq> Some i) \<and>
         filter (\<lambda>r. ActionID r = i \<and> \<not> PostMailSent r) (ActionHistory (fst (run ops st))) =
           filter (\<lambda>r. ActionID r = i \<and> \<not> PostMailSent r) (ActionHistory st)"
  using assms
proof (induction ops arbitrary: st)
  case Nil
  then show ?case by simp
next
  case (Cons op ops)
  obtain st' fx where step: "apply_operation op st = (st', fx)"
    by (cases "apply_operation op st") auto
  have "map_of (actions st') i = Some e \<and>
        (\<forall>x \<in> set fx. about_action x \<noteq> Some i) \<and>
        filter (\<lambda>r. ActionID r = i \<and> \<not> PostMailSent r) (ActionHistory st') =
          filter (\<lambda>r. ActionID r = i \<and> \<not> PostMailSent r) (ActionHistory st)"
  proof (cases op)
    case (Tick sw env)
    with Cons.prems have "\<not> shouldSend sw (map_of (actions st) i)" by simp
    from tick_skipped[OF this, of env] step Tick Cons.prems(1) show ?thesis
      by (simp add: filter_pending_of del: filter_filter)
  next
    case (Cleanup setting ok now)
    with step Cons.prems(1) cleanup_frame(1,2)[of setting ok now st]
      cleanup_frame(3)[of "\<lambda>r. ActionID r = i" setting ok now st]
    show ?thesis by auto
  next
    case (Persist ok now j m)
    with Cons.prems(2) have "j \<noteq> i" by auto
    with step Persist Cons.prems(1) show ?thesis
      by (auto simp: persistAction_def Let_def update_conv' split: if_splits)
  qed
  with Cons.IH[of st'] Cons.prems(2,3) step show ?case
    by (auto simp: split_beta)
qed

subsection \<open>Sample status document\<close>

lemma to_lower_chars:
  "to_lower CHR ''A'' = CHR ''a''" "to_lower CHR ''B'' = CHR ''b''"
  "to_lower CHR ''C'' = CHR ''c''" "to_lower CHR ''D'' = CHR ''d''"
  "to_lower CHR ''E'' = CHR ''e''" "to_lower CHR ''F'' = CHR ''f''"
  "to_lower CHR ''G'' = CHR ''g''" "to_lower CHR ''H'' = CHR ''h''"
  "to_lower CHR ''I'' = CHR ''i''" "to_lower CHR ''J'' = CHR ''j''"
  "to_lower CHR ''K'' = CHR ''k''" "to_lower CHR ''L'' = CHR ''l''"
  "to_lower CHR ''M'' = CHR ''m''" "to_lower CHR ''N'' = CHR ''n''"
  "to_lower CHR ''O'' = CHR ''o''" "to_lower CHR ''P'' = CHR ''p''"
  "to_lower CHR ''Q'' = CHR ''q''" "to_lower CHR ''R'' = CHR ''r''"
  "to_lower CHR ''S'' = CHR ''s''" "to_lower CHR ''T'' = CHR ''t''"
  "to_lower CHR ''U'' = CHR ''u''" "to_lower CHR ''V'' = CHR ''v''"
  "to_lower CHR ''W'' = CHR ''w''" "to_lower CHR ''X'' = CHR ''x''"
  "to_lower CHR ''Y'' = CHR ''y''" "to_lower CHR ''Z'' = CHR ''z''"
  "to_lower CHR ''a'' = CHR ''a''" "to_lower CHR ''b'' = CHR ''b''"
  "to_lower CHR ''c'' = CHR ''c''" "to_lower CHR ''d'' = CHR ''d''"
  "to_lower CHR ''e'' = CHR ''e''" "to_lower CHR ''f'' = CHR ''f''"
  "to_lower CHR ''g'' = CHR ''g''" "to_lower CHR ''h'' = CHR ''h''"
  "to_lower CHR ''i'' = CHR ''i''" "to_lower CHR ''j'' = CHR ''j''"
  "to_lower CHR ''k'' = CHR ''k''" "to_lower CHR ''l'' = CHR ''l''"
  "to_lower CHR ''m'' = CHR ''m''" "to_lower CHR ''n'' = CHR ''n''"
  "to_lower CHR ''o'' = CHR ''o''" "to_lower CHR ''p'' = CHR ''p''"
  "to_lower CHR ''q'' = CHR ''q''" "to_lower CHR ''r'' = CHR ''r''"
  "to_lower CHR ''s'' = CHR ''s''" "to_lower CHR ''t'' = CHR ''t''"
  "to_lower CHR ''u'' = CHR ''u''" "to_lower CHR ''v'' = CHR ''v''"
  "to_lower CHR ''w'' = CHR ''w''" "to_lower CHR ''x'' = CHR ''x''"
  "to_lower CHR ''y'' = CHR ''y''" "to_lower CHR ''z'' = CHR ''z''"
  "to_lower CHR ''0'' = CHR ''0''" "to_lower CHR ''1'' = CHR ''1''"
  "to_lower CHR ''2'' = CHR ''2''" "to_lower CHR ''3'' = CHR ''3''"
  "to_lower CHR ''4'' = CHR ''4''" "to_lower CHR ''5'' = CHR ''5''"
  "to_lower CHR ''6'' = CHR ''6''" "to_lower CHR ''7'' = CHR ''7''"
  "to_lower CHR ''8'' = CHR ''8''" "to_lower CHR ''9'' = CHR ''9''"
  "to_lower CHR ''<'' = CHR ''<''" "to_lower CHR ''>'' = CHR ''>''"
  "to_lower CHR ''/'' = CHR ''/''" "to_lower CHR '' '' = CHR '' ''"
  "to_lower CHR ''='' = CHR ''=''" "to_lower CHR ''_'' = CHR ''_''"
  "to_lower CHR ''-'' = CHR ''-''" "to_lower CHR ''.'' = CHR ''.''"
  "to_lower CHR '':'' = CHR '':''"
  by (simp_all add: to_lower_def)

lemma expired_doc_status: "pickStatusTop expired_doc = Some ''Expired''"
  by (simp add: pickStatusTop_def pickTag_def expired_doc_def to_lower_chars trim_def is_space_def)

lemma expired_doc_expired: "expired_status (PollResponse True expired_doc)"
  by (simp add: expired_doc_status to_lower_chars) (simp add: expired_doc_def)

lemma tick_pending:
  "tick True failing_mail_env pending_state =
     (pending_state\<lparr>actions := [(7, (sample_entry 7)\<lparr>postMailSent := True\<rparr>)],
        ActionHistory := [sample_row 7 True 0]\<rparr>,
      [StatusPoll 7, ResultsFetch 7, PostPatchMail 7 False, FlagSet 7, HistoryUpdate 7 True])"
  by (simp add: tick_def tick_record_def shouldSend_def pending_state_def sample_entry_def
      failing_mail_env_def expired_doc_status to_lower_chars markSent_def sample_row_def)
     (simp add: expired_doc_def)

subsection \<open>One call of \<open>tick\<close>, await by await\<close>

lemma markSent_halves:
  "markSent ok i st =
     (let (st1, fx1) = markSent_memory i st; (st2, fx2) = markSent_update ok i st1
      in (st2, fx1 @ fx2))"
  by (simp add: markSent_def markSent_memory_def markSent_update_def Let_def split: option.splits)

text \<open>
  The loop of \<open>tick\<close> run as one piece is the call of \<open>tick\<close> that nothing interrupts, with
  the switch left as it is: same store, same effects in the same order.
\<close>

lemma tick_loop_uninterrupted: "tick_loop sw env ids st = uninterrupted sw env ids st"
proof (induction ids arbitrary: st)
  case Nil
  show ?case by (simp add: uninterrupted_def)
next
  case (Cons i ids)
  show ?case
  proof (cases "shouldSend sw (map_of (actions st) i)")
    case False
    then have "tick_record sw env i st = (True, st, [])" by (simp add: tick_record_def)
    with False Cons[of st] show ?thesis by (simp add: uninterrupted_def)
  next
    case True
    let ?R = "\<lambda>w. \<lparr>answers = env, current = i, waiting = w, remaining = ids\<rparr>"
    let ?r = "?R AwaitStatus"
    from True have nr: "next_record sw env (i # ids) st = (Some ?r, [StatusPoll i])" by simp
    show ?thesis
    proof (cases "poll env i")
      case PollThrows
      with True have "tick_record sw env i st = (False, st, [StatusPoll i])"
        by (simp add: tick_record_def)
      moreover from PollThrows have "resume sw ?r st = (None, st, [])"
        by (simp add: resume_def)
      then have "finish sw ?r st = (st, [])" by (subst finish.simps) simp
      ultimately show ?thesis by (simp add: uninterrupted_def True)
    next
      case (PollResponse ok body)
      show ?thesis
      proof (cases "\<not> ok \<or> body = [] \<or>
          map to_lower (case pickStatusTop body of None \<Rightarrow> [] | Some s \<Rightarrow> s) \<noteq> ''expired''")
        case skip: True
        with True PollResponse have tr: "tick_record sw env i st = (True, st, [StatusPoll i])"
          by (auto simp: tick_record_def Let_def)
        from skip PollResponse have "resume sw ?r st =
            (fst (next_record sw env ids st), st, snd (next_record sw env ids st))"
          by (auto simp: resume_def Let_def split_beta)
        then have "finish sw ?r st = uninterrupted sw env ids st"
          by (subst finish.simps) (simp add: uninterrupted_def split_beta split: option.splits)
        with tr Cons[of st] show ?thesis by (simp add: uninterrupted_def True split_beta)
      next
        case final: False
        let ?st1 = "fst (markSent_memory i st)"
        let ?st2 = "fst (markSent_update (updateOk env i) i ?st1)"
        from final True PollResponse have tr: "tick_record sw env i st =
            (True, fst (markSent (updateOk env i) i st),
             [StatusPoll i, ResultsFetch i, PostPatchMail i (mailOk env i)] @
             snd (markSent (updateOk env i) i st))"
          by (auto simp: tick_record_def Let_def split_beta)
        have ms: "fst (markSent (updateOk env i) i st) = ?st2"
          "snd (markSent (updateOk env i) i st) =
             snd (markSent_memory i st) @ snd (markSent_update (updateOk env i) i ?st1)"
          by (simp_all add: markSent_halves split_beta)
        have s1: "resume sw ?r st = (Some (?R AwaitResults), st, [ResultsFetch i])"
          using final PollResponse by (auto simp: resume_def Let_def)
        have s2: "resume sw (?R AwaitResults) st =
            (Some (?R AwaitMail), st, [PostPatchMail i (mailOk env i)])"
          by (simp add: resume_def)
        have s3: "resume sw (?R AwaitMail) st =
            (Some (?R AwaitUpdate), ?st1, snd (markSent_memory i st))"
          by (simp add: resume_def split_beta)
        have s4: "resume sw (?R AwaitUpdate) ?st1 =
            (fst (next_record sw env ids ?st2), ?st2,
             snd (markSent_update (updateOk env i) i ?st1) @ snd (next_record sw env ids ?st2))"
          by (simp add: resume_def split_beta)
        have f4: "finish sw (?R AwaitUpdate) ?st1 =
            (fst (uninterrupted sw env ids ?st2),
             snd (markSent_update (updateOk env i) i ?st1) @ snd (uninterrupted sw env ids ?st2))"
          by (subst finish.simps) (simp add: s4 uninterrupted_def split_beta split: option.splits)
        have f3: "finish sw (?R AwaitMail) st =
            (fst (uninterrupted sw env ids ?st2),
             snd (markSent_memory i st) @ snd (markSent_update (updateOk env i) i ?st1) @
             snd (uninterrupted sw env ids ?st2))"
          by (subst finish.simps) (simp add: s3 f4 split_beta)
        have f2: "finish sw (?R AwaitResults) st =
            (fst (uninterrupted sw env ids ?st2),
             PostPatchMail i (mailOk env i) # snd (markSent_memory i st) @
             snd (markSent_update (updateOk env i) i ?st1) @ snd (uninterrupted sw env ids ?st2))"
          by (subst finish.simps) (simp add: s2 f3 split_beta)
        have f1: "finish sw ?r st =
            (fst (uninterrupted sw env ids ?st2),
             ResultsFetch i # PostPatchMail i (mailOk env i) # snd (markSent_memory i st) @
             snd (markSent_update (updateOk env i) i ?st1) @ snd (uninterrupted sw env ids ?st2))"
          by (subst finish.simps) (simp add: s1 f2 split_beta)
        from tr ms Cons[of ?st2] f1 show ?thesis
          by (simp add: uninterrupted_def True split_beta)
      qed
    qed
  qed
qed

lemma tick_uninterrupted:
  "tick sw env st = uninterrupted sw env (sort (remdups (map fst (actions st)))) st"
  by (simp add: tick_def tick_loop_uninterrupted)

subsection \<open>A flagged record stays flagged\<close>


lemma flagged_entry_fixed: "postMailSent e \<Longrightarrow> e\<lparr>postMailSent := True\<rparr> = e"
  by simp










subsection \<open>Sample runs of the process\<close>















subsection \<open>What finalizing a record guarantees\<close>




subsection \<open>Records that never get a mail\<close>

text \<open>
  Claim C10. If the entry of action \<open>i\<close> has \<open>preMail\<close> false or \<open>smtpEnabled\<close> false, or
  every tick of the run is made with \<open>CONFIG.postPatchMail\<close> off, then (the Dispatcher not
  writing \<open>i\<close> again) every tick skips the record: its status is never polled, no mail is
  attempted for it, its flag is never set in memory nor in the table, the entry stays as
  it is, and its rows with \<open>PostMailSent\<close> not set stay in the table unchanged, so that no
  retention cleanup removes them.
\<close>

theorem muted_record_is_never_processed:
  assumes "map_of (actions st) i = Some e"
    and "preMail e = Some False \<or> smtpEnabled e = Some False \<or> (\<forall>op \<in> set ops. switch_off op)"
    and "\<forall>op \<in> set ops. \<not> persists i op"
  shows "map_of (actions (fst (run ops st))) i = Some e \<and>
         StatusPoll i \<notin> set (snd (run ops st)) \<and>
         (\<forall>b. PostPatchMail i b \<notin> set (snd (run ops st))) \<and>
         FlagSet i \<notin> set (snd (run ops st)) \<and>
         (\<forall>b. HistoryUpdate i b \<notin> set (snd (run ops st))) \<and>
         filter (\<lambda>r. ActionID r = i \<and> \<not> PostMailSent r) (ActionHistory (fst (run ops st))) =
           filter (\<lambda>r. ActionID r = i \<and> \<not> PostMailSent r) (ActionHistory st)"
proof -
  have skip: "\<forall>op \<in> set ops. \<forall>sw env. op = Tick sw env \<longrightarrow> \<not> shouldSend sw (Some e)"
    using assms(2) by (auto simp: shouldSend_iff)
  note un = run_untouched[OF assms(1) assms(3) skip]
  from un have "\<And>x. about_action x = Some i \<Longrightarrow> x \<notin> set (snd (run ops st))" by auto
  then have "StatusPoll i \<notin> set (snd (run ops st))" "FlagSet i \<notin> set (snd (run ops st))"
    "\<And>b. PostPatchMail i b \<notin> set (snd (run ops st))"
    "\<And>b. HistoryUpdate i b \<notin> set (snd (run ops st))"
    by simp_all
  with un show ?thesis by blast
qed

text \<open>Action 9 was created with \<open>preMail\<close> false; the run is the one above.\<close>

theorem muted_record_witness:
  "map_of (actions muted_state) 9 = Some ((sample_entry 9)\<lparr>preMail := Some False\<rparr>) \<and>
   preMail ((sample_entry 9)\<lparr>preMail := Some False\<rparr>) = Some False \<and>
   list_all (\<lambda>op. \<not> persists 9 op) later_operations \<and>
   map_of (actions (fst (run later_operations muted_state))) 9 =
     Some ((sample_entry 9)\<lparr>preMail := Some False\<rparr>) \<and>
   StatusPoll 9 \<notin> set (snd (run later_operations muted_state)) \<and>
   (\<forall>b. PostPatchMail 9 b \<notin> set (snd (run later_operations muted_state))) \<and>
   FlagSet 9 \<notin> set (snd (run later_operations muted_state)) \<and>
   filter (\<lambda>r. ActionID r = 9 \<and> \<not> PostMailSent r)
     (ActionHistory (fst (run later_operations muted_state))) = [sample_row 9 False 0]"
proof -
  have h1: "map_of (actions muted_state) 9 = Some ((sample_entry 9)\<lparr>preMail := Some False\<rparr>)"
    by (simp add: muted_state_def)
  have h2: "preMail ((sample_entry 9)\<lparr>preMail := Some False\<rparr>) = Some False \<or>
            smtpEnabled ((sample_entry 9)\<lparr>preMail := Some False\<rparr>) = Some False \<or>
            (\<forall>op \<in> set later_operations. switch_off op)"
    by simp
  have h3: "\<forall>op \<in> set later_operations. \<not> persists 9 op"
    by (simp add: later_operations_def)
  have h4: "filter (\<lambda>r. ActionID r = 9 \<and> \<not> PostMailSent r) (ActionHistory muted_state) =
            [sample_row 9 False 0]"
    by (simp add: muted_state_def sample_row_def)
  from muted_record_is_never_processed[OF h1 h2 h3] h1 h3 h4
  show ?thesis by (simp add: list_all_iff)
qed

subsection \<open>The flag follows the mail attempt\<close>

text \<open>In a trace, every setting of a flag comes right after the mail attempt for that action.\<close>

lemma tick_record_order:
  assumes "tick_record sw env j st = (b, st', fx)" "fx = pre @ FlagSet i # post"
  shows "\<exists>pre'. pre = pre' @ [PostPatchMail i (mailOk env i)]"
  using assms
  by (cases rule: tick_record_cases[of sw env j st])
     (auto simp: Cons_eq_append_conv)

lemma tick_loop_order:
  "snd (tick_loop sw env ids st) = pre @ FlagSet i # post \<Longrightarrow>
   \<exists>pre'. pre = pre' @ [PostPatchMail i (mailOk env i)]"
proof (induction ids arbitrary: st pre)
  case Nil
  then show ?case by simp
next
  case (Cons j ids)
  obtain b st' fx where rec: "tick_record sw env j st = (b, st', fx)"
    by (cases "tick_record sw env j st") auto
  show ?case
  proof (cases b)
    case False
    with rec Cons.prems have "fx = pre @ FlagSet i # post" by simp
    from tick_record_order[OF rec this] show ?thesis .
  next
    case True
    with rec Cons.prems
    have eq: "fx @ snd (tick_loop sw env ids st') = pre @ FlagSet i # post"
      by (simp add: split_beta)
    then obtain us where
      "(fx = pre @ us \<and> us @ snd (tick_loop sw env ids st') = FlagSet i # post) \<or>
       (fx @ us = pre \<and> snd (tick_loop sw env ids st') = us @ FlagSet i # post)"
      by (auto simp: append_eq_append_conv2)
    then consider
        (left) u where "fx = pre @ FlagSet i # u"
      | (right) u where "pre = fx @ u" "snd (tick_loop sw env ids st') = u @ FlagSet i # post"
      by (cases us) auto
    then show ?thesis
    proof cases
      case left
      from tick_record_order[OF rec this] show ?thesis .
    next
      case right
      from Cons.IH[OF right(2)] right(1) show ?thesis by auto
    qed
  qed
qed

lemma flagged_after_update:
  assumes "r \<in> set (map (\<lambda>r. if ActionID r = i then r\<lparr>PostMailSent := True\<rparr> else r) rows)"
    and "ActionID r = i"
  shows "PostMailSent r"
proof -
  from assms(1) have "r \<in> (\<lambda>r. if ActionID r = i then r\<lparr>PostMailSent := True\<rparr> else r) ` set rows"
    by (simp only: set_map)
  then obtain r0 where r0: "r = (if ActionID r0 = i then r0\<lparr>PostMailSent := True\<rparr> else r0)"
    by (rule imageE)
  show ?thesis
  proof (cases "ActionID r0 = i")
    case True
    with r0 have "r = r0\<lparr>PostMailSent := True\<rparr>" by simp
    then show ?thesis by simp
  next
    case False
    with r0 assms(2) show ?thesis by simp
  qed
qed

lemma markSent_flags_rows:
  "ok \<Longrightarrow> r \<in> set (ActionHistory (fst (markSent ok i st))) \<Longrightarrow> ActionID r = i \<Longrightarrow> PostMailSent r"
  using flagged_after_update[of r i "ActionHistory st"] by (simp add: markSent_history)

lemma tick_loop_Cons:
  "tick_record sw env j st = (b, st', fx) \<Longrightarrow>
   tick_loop sw env (j # ids) st =
     (if b then (fst (tick_loop sw env ids st'), fx @ snd (tick_loop sw env ids st'))
      else (st', fx))"
  by (cases b) (simp_all add: split_beta)

lemma tick_loop_finalizes:
  assumes "StatusPoll i \<in> set (snd (tick_loop sw env ids st))" "expired_status (poll env i)"
  shows "PostPatchMail i (mailOk env i) \<in> set (snd (tick_loop sw env ids st)) \<and>
         FlagSet i \<in> set (snd (tick_loop sw env ids st)) \<and>
         HistoryUpdate i (updateOk env i) \<in> set (snd (tick_loop sw env ids st)) \<and>
         (\<exists>e. map_of (actions (fst (tick_loop sw env ids st))) i = Some e \<and> postMailSent e) \<and>
         (updateOk env i \<longrightarrow>
            (\<forall>r \<in> set (ActionHistory (fst (tick_loop sw env ids st))).
               ActionID r = i \<longrightarrow> PostMailSent r))"
  using assms(1)
proof (induction ids arbitrary: st)
  case Nil
  then show ?case by simp
next
  case (Cons j ids)
  obtain b st' fx where rec: "tick_record sw env j st = (b, st', fx)"
    by (cases "tick_record sw env j st") auto
  note unfold = tick_loop_Cons[OF rec, of ids]
  show ?case
  proof (cases "j = i")
    case False
    from tick_record_frame(3)[OF False rec] False have nin: "StatusPoll i \<notin> set fx" by auto
    have b: b
    proof (rule ccontr)
      assume "\<not> b"
      with unfold Cons.prems nin show False by simp
    qed
    with unfold Cons.prems nin have "StatusPoll i \<in> set (snd (tick_loop sw env ids st'))"
      by simp
    from Cons.IH[OF this] show ?thesis unfolding unfold using b by simp
  next
    case True
    show ?thesis
    proof (cases rule: tick_record_cases[of sw env i st])
      case skip
      with rec True have "b" "st' = st" "fx = []" by simp_all
      with unfold Cons.prems have "StatusPoll i \<in> set (snd (tick_loop sw env ids st))" by simp
      from Cons.IH[OF this] show ?thesis unfolding unfold using \<open>b\<close> \<open>st' = st\<close> \<open>fx = []\<close> by simp
    next
      case (poll b')
      with assms(2) show ?thesis by simp
    next
      case final
      let ?st' = "fst (markSent (updateOk env i) i st)"
      from final(1) rec True have st': "st' = ?st'" and b: b
        and fx: "fx = [StatusPoll i, ResultsFetch i, PostPatchMail i (mailOk env i), FlagSet i,
                       HistoryUpdate i (updateOk env i)]"
        by simp_all
      from final(2) obtain e where e: "map_of (actions st) i = Some e"
        by (auto simp: shouldSend_iff)
      then have e': "map_of (actions ?st') i = Some (e\<lparr>postMailSent := True\<rparr>)"
        by (simp add: markSent_actions)
      then have "\<not> shouldSend sw (map_of (actions ?st') i)" by (simp add: shouldSend_iff)
      from tick_loop_skipped[OF this, of env ids] e'
      have rest: "map_of (actions (fst (tick_loop sw env ids ?st'))) i = Some (e\<lparr>postMailSent := True\<rparr>)"
        "filter (\<lambda>r. ActionID r = i) (ActionHistory (fst (tick_loop sw env ids ?st'))) =
         filter (\<lambda>r. ActionID r = i) (ActionHistory ?st')"
        by auto
      have rows: "\<forall>r \<in> set (ActionHistory (fst (tick_loop sw env ids ?st'))). ActionID r = i \<longrightarrow> PostMailSent r"
        if ok: "updateOk env i"
      proof (intro ballI impI)
        fix r assume "r \<in> set (ActionHistory (fst (tick_loop sw env ids ?st')))" "ActionID r = i"
        then have "r \<in> set (filter (\<lambda>r. ActionID r = i) (ActionHistory (fst (tick_loop sw env ids ?st'))))"
          by simp
        with rest(2) have "r \<in> set (ActionHistory ?st')" by simp
        from markSent_flags_rows[OF ok this \<open>ActionID r = i\<close>] show "PostMailSent r" .
      qed
      have mem: "\<exists>e. map_of (actions (fst (tick_loop sw env ids ?st'))) i = Some e \<and> postMailSent e"
        using rest(1) by simp
      show ?thesis unfolding unfold st' fx using b rows mem by simp
    qed
  qed
qed

text \<open>
  Claim C2. In every tick, wherever the flag of an action \<open>i\<close> is set, the effect just
  before it is the mail attempt for \<open>i\<close> with its outcome, so the attempt has ended when
  the flag is set. And if the tick polls \<open>i\<close> and the answer is the terminal status, then
  the mail is attempted, the flag is set in memory and the update of the table is
  attempted, whether the send succeeded or threw (\<open>mailOk env i\<close> is arbitrary); when
  the update goes through, every row of \<open>i\<close> has \<open>PostMailSent\<close> set after the tick.
\<close>

theorem flag_set_after_mail_attempt_whatever_its_outcome:
  "(\<forall>pre post. snd (tick sw env st) = pre @ FlagSet i # post \<longrightarrow>
      (\<exists>pre'. pre = pre' @ [PostPatchMail i (mailOk env i)])) \<and>
   (StatusPoll i \<in> set (snd (tick sw env st)) \<and> expired_status (poll env i) \<longrightarrow>
      PostPatchMail i (mailOk env i) \<in> set (snd (tick sw env st)) \<and>
      FlagSet i \<in> set (snd (tick sw env st)) \<and>
      HistoryUpdate i (updateOk env i) \<in> set (snd (tick sw env st)) \<and>
      (\<exists>e. map_of (actions (fst (tick sw env st))) i = Some e \<and> postMailSent e) \<and>
      (updateOk env i \<longrightarrow>
         (\<forall>r \<in> set (ActionHistory (fst (tick sw env st))). ActionID r = i \<longrightarrow> PostMailSent r)))"
  unfolding tick_def using tick_loop_order tick_loop_finalizes by blast

text \<open>The mail send throws for the pending action 7, and the record is finalized all the same.\<close>

theorem failed_mail_still_finalizes_witness:
  "snd (tick True failing_mail_env pending_state) =
     [StatusPoll 7, ResultsFetch 7, PostPatchMail 7 False] @ FlagSet 7 # [HistoryUpdate 7 True] \<and>
   mailOk failing_mail_env 7 = False \<and>
   expired_status (poll failing_mail_env 7) \<and>
   (\<exists>e. map_of (actions (fst (tick True failing_mail_env pending_state))) 7 = Some e \<and>
        postMailSent e) \<and>
   list_all PostMailSent (ActionHistory (fst (tick True failing_mail_env pending_state)))"
  using flag_set_after_mail_attempt_whatever_its_outcome [of True failing_mail_env pending_state 7]
    tick_pending expired_doc_expired
  by (simp add: failing_mail_env_def sample_row_def)

subsection \<open>Recovery load\<close>

lemma dispatcher_rowD:
  "dispatcher_row r \<Longrightarrow> \<exists>m. Metadata r = JsonOf m \<and> \<not> postMailSent m"
  by (cases "Metadata r") (auto simp: dispatcher_row_def)

lemma history_ok_row:
  "history_ok rows \<Longrightarrow> r \<in> set rows \<Longrightarrow> \<exists>m. Metadata r = JsonOf m \<and> \<not> postMailSent m"
  by (auto simp: history_ok_def list_all_iff intro: dispatcher_rowD)

lemma load_rows_other:
  "k \<notin> ActionID ` set rows \<Longrightarrow> map_of (load_rows rows acts) k = map_of acts k"
  by (induction rows arbitrary: acts) (auto simp: update_conv' split: metadata_col.splits)

lemma load_rows_hit:
  "r \<in> set rows \<Longrightarrow> distinct (map ActionID rows) \<Longrightarrow> Metadata r = JsonOf m \<Longrightarrow>
   map_of (load_rows rows acts) (ActionID r) = Some (m\<lparr>postMailSent := PostMailSent r\<rparr>)"
proof (induction rows arbitrary: acts)
  case Nil
  then show ?case by simp
next
  case (Cons row rows)
  show ?case
  proof (cases "r = row")
    case True
    with Cons.prems have "ActionID r \<notin> ActionID ` set rows" by auto
    from load_rows_other[OF this] True Cons.prems(3) show ?thesis
      by (simp add: update_conv')
  next
    case False
    with Cons.prems have "r \<in> set rows" "distinct (map ActionID rows)" by auto
    from Cons.IH[OF this Cons.prems(3)] show ?thesis
      by (simp split: metadata_col.splits)
  qed
qed

lemma load_rows_origin:
  "map_of (load_rows rows acts) k = Some e \<Longrightarrow>
   map_of acts k = Some e \<or>
   (\<exists>r \<in> set rows. ActionID r = k \<and>
      (\<exists>m. Metadata r = JsonOf m \<and> e = m\<lparr>postMailSent := PostMailSent r\<rparr>))"
proof (induction rows arbitrary: acts)
  case Nil
  then show ?case by simp
next
  case (Cons row rows)
  show ?case
  proof (cases "Metadata row")
    case NotJson
    with Cons.prems have "map_of (load_rows rows acts) k = Some e" by simp
    from Cons.IH[OF this] show ?thesis by auto
  next
    case (JsonOf m)
    with Cons.prems have
      "map_of (load_rows rows (AList.update (ActionID row) (m\<lparr>postMailSent := PostMailSent row\<rparr>) acts)) k = Some e"
      by simp
    from Cons.IH[OF this] JsonOf show ?thesis
      by (auto simp: update_conv' split: if_splits)
  qed
qed

lemma markSent_history_ok:
  "history_ok (ActionHistory st) \<Longrightarrow> history_ok (ActionHistory (fst (markSent ok i st)))"
proof -
  have ids: "map ActionID (map (\<lambda>r. if ActionID r = i then r\<lparr>PostMailSent := True\<rparr> else r) rows) =
             map ActionID rows" for rows
    by (induction rows) auto
  have rows: "list_all dispatcher_row rows \<Longrightarrow>
      list_all dispatcher_row (map (\<lambda>r. if ActionID r = i then r\<lparr>PostMailSent := True\<rparr> else r) rows)"
    for rows
    by (induction rows) (auto simp: dispatcher_row_def)
  assume "history_ok (ActionHistory st)"
  then show ?thesis
    unfolding history_ok_def markSent_history by (simp add: ids rows del: map_map)
qed

lemma tick_loop_history_ok:
  "history_ok (ActionHistory st) \<Longrightarrow> history_ok (ActionHistory (fst (tick_loop sw env ids st)))"
proof (induction ids arbitrary: st)
  case Nil
  then show ?case by simp
next
  case (Cons j ids)
  show ?case
  proof (cases rule: tick_record_cases[of sw env j st])
    case skip
    with Cons show ?thesis by (simp add: split_beta)
  next
    case (poll b)
    with Cons show ?thesis by (cases b) (simp_all add: split_beta)
  next
    case final
    with Cons.IH[OF markSent_history_ok[OF Cons.prems, of "updateOk env j" j]]
    show ?thesis by (simp add: split_beta)
  qed
qed

lemma persistAction_history_ok:
  "history_ok (ActionHistory st) \<Longrightarrow> \<not> postMailSent m \<Longrightarrow>
   history_ok (ActionHistory (fst (persistAction ok now aid m st)))"
  by (auto simp: persistAction_def Let_def history_ok_def dispatcher_row_def)

lemma cleanup_history_ok:
  "history_ok (ActionHistory st) \<Longrightarrow>
   history_ok (ActionHistory (fst (cleanupOldActions setting ok now st)))"
  by (auto simp: cleanupOldActions_def history_ok_def distinct_map_filter list_all_iff)

text \<open>
  Every table that the program builds up from an empty one consists of rows as the
  Dispatcher writes them, under distinct ids.
\<close>

lemma run_history_ok:
  "history_ok (ActionHistory st) \<Longrightarrow> history_ok (ActionHistory (fst (run ops st)))"
proof (induction ops arbitrary: st)
  case Nil
  then show ?case by simp
next
  case (Cons op ops)
  have "history_ok (ActionHistory (fst (apply_operation op st)))"
  proof (cases op)
    case (Tick sw env)
    with tick_loop_history_ok[OF Cons.prems] show ?thesis by (simp add: tick_def)
  next
    case (Cleanup setting ok now)
    with cleanup_history_ok[OF Cons.prems] show ?thesis by simp
  next
    case (Persist ok now j m)
    with persistAction_history_ok[OF Cons.prems, of "m\<lparr>entry_id := j, postMailSent := False\<rparr>"]
    show ?thesis by simp
  qed
  from Cons.IH[OF this] show ?case by (simp add: split_beta)
qed

text \<open>
  Claim C8. Let the table be one the program has built (distinct ids, rows written by the
  Dispatcher) and let the select of the recovery load succeed. Started on an empty
  in-memory map, as after a crash, the load puts into the map every row whose
  \<open>PostMailSent\<close> flag is not set, under its id and with exactly the metadata that was
  persisted, and nothing else. \<open>startPostPatchWatcher\<close> runs the load first: the select
  is the first effect of the process, before every tick and cleanup.
\<close>

theorem recovery_load_restores_pending_records:
  assumes "history_ok (ActionHistory st)"
  shows "(\<forall>r \<in> set (ActionHistory st). \<not> PostMailSent r \<longrightarrow>
            (\<exists>m. Metadata r = JsonOf m \<and>
               map_of (actions (fst (loadCacheFromDb True (st\<lparr>actions := []\<rparr>)))) (ActionID r) = Some m)) \<and>
         (\<forall>k e. map_of (actions (fst (loadCacheFromDb True (st\<lparr>actions := []\<rparr>)))) k = Some e \<longrightarrow>
            (\<exists>r \<in> set (ActionHistory st). ActionID r = k \<and> \<not> PostMailSent r \<and> Metadata r = JsonOf e)) \<and>
         startPostPatchWatcher True ops st =
           (fst (run ops (fst (loadCacheFromDb True st))),
            HistorySelect True # snd (run ops (fst (loadCacheFromDb True st))))"
proof (intro conjI ballI allI impI)
  let ?pending = "filter (\<lambda>r. \<not> PostMailSent r) (ActionHistory st)"
  from assms have d: "distinct (map ActionID ?pending)"
    by (simp add: history_ok_def distinct_map_filter)
  have mem: "actions (fst (loadCacheFromDb True (st\<lparr>actions := []\<rparr>))) = load_rows ?pending []"
    by (simp add: loadCacheFromDb_def)
  {
    fix r assume r: "r \<in> set (ActionHistory st)" "\<not> PostMailSent r"
    from history_ok_row[OF assms r(1)] obtain m where m: "Metadata r = JsonOf m" "\<not> postMailSent m"
      by blast
    from r have "r \<in> set ?pending" by simp
    from load_rows_hit[OF this d m(1), of "[]"] r(2) m(2)
    have "map_of (load_rows ?pending []) (ActionID r) = Some m" by simp
    with m(1) mem
    show "\<exists>m. Metadata r = JsonOf m \<and>
       map_of (actions (fst (loadCacheFromDb True (st\<lparr>actions := []\<rparr>)))) (ActionID r) = Some m"
      by simp
  }
  {
    fix k e
    assume "map_of (actions (fst (loadCacheFromDb True (st\<lparr>actions := []\<rparr>)))) k = Some e"
    with mem have "map_of (load_rows ?pending []) k = Some e" by simp
    from load_rows_origin[OF this] obtain r m where r: "r \<in> set ?pending" "ActionID r = k"
      "Metadata r = JsonOf m" "e = m\<lparr>postMailSent := PostMailSent r\<rparr>"
      by auto
    from r(1) have "r \<in> set (ActionHistory st)" by simp
    from history_ok_row[OF assms this] r(3) have "\<not> postMailSent m" by auto
    with r have "e = m" by simp
    with r show "\<exists>r \<in> set (ActionHistory st). ActionID r = k \<and> \<not> PostMailSent r \<and> Metadata r = JsonOf e"
      by auto
  }
  show "startPostPatchWatcher True ops st =
           (fst (run ops (fst (loadCacheFromDb True st))),
            HistorySelect True # snd (run ops (fst (loadCacheFromDb True st))))"
    by (simp add: startPostPatchWatcher_def loadCacheFromDb_def split_beta)
qed

text \<open>Of the three rows of the sample table only the pending one, action 2, is loaded.\<close>

theorem recovery_load_witness:
  "history_ok (ActionHistory retention_state) \<and>
   sample_row 2 False 0 \<in> set (ActionHistory retention_state) \<and>
   \<not> PostMailSent (sample_row 2 False 0) \<and>
   map_of (actions (fst (loadCacheFromDb True (retention_state\<lparr>actions := []\<rparr>)))) 2 =
     Some (sample_entry 2) \<and>
   actions (fst (loadCacheFromDb True (retention_state\<lparr>actions := []\<rparr>))) = [(2, sample_entry 2)]"
proof -
  have ok: "history_ok (ActionHistory retention_state)"
    by (simp add: history_ok_def dispatcher_row_def retention_state_def sample_row_def
        sample_entry_def)
  have row: "sample_row 2 False 0 \<in> set (ActionHistory retention_state)"
    by (simp add: retention_state_def)
  have sole: "actions (fst (loadCacheFromDb True (retention_state\<lparr>actions := []\<rparr>))) =
      [(2, sample_entry 2)]"
    by (simp add: loadCacheFromDb_def retention_state_def sample_row_def sample_entry_def)
  from recovery_load_restores_pending_records[OF ok, of "[]"] ok row sole
  show ?thesis by (simp add: sample_row_def)
qed

subsection \<open>Target expression\<close>

lemma js_includes_intro: "js_includes (pre @ p @ post) p"
proof (induction pre)
  case Nil
  show ?case
  proof (cases "p @ post")
    case Nil
    then show ?thesis by simp
  next
    case (Cons a list)
    have "take (length p) (p @ post) = p" by simp
    with Cons have "take (length p) (a # list) = p" by simp
    with Cons show ?thesis by simp
  qed
next
  case (Cons a pre)
  then show ?case by simp
qed

lemma js_includes_elim: "js_includes s p \<Longrightarrow> \<exists>pre post. s = pre @ p @ post"
proof (induction s)
  case Nil
  then have "[] = [] @ p @ []" by simp
  then show ?case by blast
next
  case (Cons c cs)
  show ?case
  proof (cases "take (length p) (c # cs) = p")
    case True
    have "take (length p) (c # cs) @ drop (length p) (c # cs) = c # cs"
      by (rule append_take_drop_id)
    with True have "c # cs = [] @ p @ drop (length p) (c # cs)" by simp
    then show ?thesis by blast
  next
    case False
    with Cons.prems have "js_includes cs p" by simp
    from Cons.IH[OF this] obtain pre post where "cs = pre @ p @ post" by blast
    then have "c # cs = (c # pre) @ p @ post" by simp
    then show ?thesis by blast
  qed
qed

lemma js_includes_iff: "js_includes s p \<longleftrightarrow> (\<exists>pre post. s = pre @ p @ post)"
proof
  assume "js_includes s p"
  then show "\<exists>pre post. s = pre @ p @ post" by (rule js_includes_elim)
next
  assume "\<exists>pre post. s = pre @ p @ post"
  then obtain pre post where "s = pre @ p @ post" by blast
  then show "js_includes s p" by (simp only: js_includes_intro)
qed

lemma includes_lower_iff:
  "js_includes (toLowerSafe s) p \<longleftrightarrow>
   (\<exists>pre mid post. s = pre @ mid @ post \<and> map to_lower mid = p)"
proof
  assume "js_includes (toLowerSafe s) p"
  then have "\<exists>pre' post'. map to_lower s = pre' @ p @ post'"
    by (simp only: js_includes_iff toLowerSafe_def)
  then obtain pre' post' where "map to_lower s = pre' @ (p @ post')" by blast
  from this[THEN map_eq_append_conv[THEN iffD1]]
  obtain pre rest where s: "s = pre @ rest" and rest: "map to_lower rest = p @ post'"
    by metis
  from rest[THEN map_eq_append_conv[THEN iffD1]]
  obtain mid post where "rest = mid @ post" "map to_lower mid = p"
    by metis
  with s have "s = pre @ mid @ post \<and> map to_lower mid = p" by simp
  then show "\<exists>pre mid post. s = pre @ mid @ post \<and> map to_lower mid = p" by blast
next
  assume "\<exists>pre mid post. s = pre @ mid @ post \<and> map to_lower mid = p"
  then obtain pre mid post where "s = pre @ mid @ post" "map to_lower mid = p" by blast
  then have "map to_lower s = map to_lower pre @ p @ map to_lower post" by simp
  then have "js_includes (map to_lower s) p" by (simp only: js_includes_intro)
  then show "js_includes (toLowerSafe s) p" by (simp only: toLowerSafe_def)
qed

lemma of_char_is: "(of_char c = (of_char d :: nat)) = (c = d)"
  by simp

lemma to_lower_is_a: "to_lower c = CHR ''a'' \<longleftrightarrow> same_letter c CHR ''a''"
proof -
  have "to_lower c = CHR ''a'' \<longleftrightarrow> c = CHR ''a'' \<or> c = CHR ''A''"
    by (auto simp: to_lower_def split: if_splits)
  moreover have "(of_char c = (65::nat)) = (c = CHR ''A'')"
    using of_char_is[of c "CHR ''A''"] by simp
  then have "same_letter c CHR ''a'' \<longleftrightarrow> c = CHR ''a'' \<or> c = CHR ''A''"
    by (auto simp: same_letter_def)
  ultimately show ?thesis by simp
qed

lemma to_lower_is_u: "to_lower c = CHR ''u'' \<longleftrightarrow> same_letter c CHR ''u''"
proof -
  have "to_lower c = CHR ''u'' \<longleftrightarrow> c = CHR ''u'' \<or> c = CHR ''U''"
    by (auto simp: to_lower_def split: if_splits)
  moreover have "(of_char c = (85::nat)) = (c = CHR ''U'')"
    using of_char_is[of c "CHR ''U''"] by simp
  then have "same_letter c CHR ''u'' \<longleftrightarrow> c = CHR ''u'' \<or> c = CHR ''U''"
    by (auto simp: same_letter_def)
  ultimately show ?thesis by simp
qed

lemma to_lower_is_t: "to_lower c = CHR ''t'' \<longleftrightarrow> same_letter c CHR ''t''"
proof -
  have "to_lower c = CHR ''t'' \<longleftrightarrow> c = CHR ''t'' \<or> c = CHR ''T''"
    by (auto simp: to_lower_def split: if_splits)
  moreover have "(of_char c = (84::nat)) = (c = CHR ''T'')"
    using of_char_is[of c "CHR ''T''"] by simp
  then have "same_letter c CHR ''t'' \<longleftrightarrow> c = CHR ''t'' \<or> c = CHR ''T''"
    by (auto simp: same_letter_def)
  ultimately show ?thesis by simp
qed

lemma to_lower_is_o: "to_lower c = CHR ''o'' \<longleftrightarrow> same_letter c CHR ''o''"
proof -
  have "to_lower c = CHR ''o'' \<longleftrightarrow> c = CHR ''o'' \<or> c = CHR ''O''"
    by (auto simp: to_lower_def split: if_splits)
  moreover have "(of_char c = (79::nat)) = (c = CHR ''O'')"
    using of_char_is[of c "CHR ''O''"] by simp
  then have "same_letter c CHR ''o'' \<longleftrightarrow> c = CHR ''o'' \<or> c = CHR ''O''"
    by (auto simp: same_letter_def)
  ultimately show ?thesis by simp
qed

lemma to_lower_is_m: "to_lower c = CHR ''m'' \<longleftrightarrow> same_letter c CHR ''m''"
proof -
  have "to_lower c = CHR ''m'' \<longleftrightarrow> c = CHR ''m'' \<or> c = CHR ''M''"
    by (auto simp: to_lower_def split: if_splits)
  moreover have "(of_char c = (77::nat)) = (c = CHR ''M'')"
    using of_char_is[of c "CHR ''M''"] by simp
  then have "same_letter c CHR ''m'' \<longleftrightarrow> c = CHR ''m'' \<or> c = CHR ''M''"
    by (auto simp: same_letter_def)
  ultimately show ?thesis by simp
qed

lemma to_lower_is_i: "to_lower c = CHR ''i'' \<longleftrightarrow> same_letter c CHR ''i''"
proof -
  have "to_lower c = CHR ''i'' \<longleftrightarrow> c = CHR ''i'' \<or> c = CHR ''I''"
    by (auto simp: to_lower_def split: if_splits)
  moreover have "(of_char c = (73::nat)) = (c = CHR ''I'')"
    using of_char_is[of c "CHR ''I''"] by simp
  then have "same_letter c CHR ''i'' \<longleftrightarrow> c = CHR ''i'' \<or> c = CHR ''I''"
    by (auto simp: same_letter_def)
  ultimately show ?thesis by simp
qed

lemma to_lower_is_c: "to_lower c = CHR ''c'' \<longleftrightarrow> same_letter c CHR ''c''"
proof -
  have "to_lower c = CHR ''c'' \<longleftrightarrow> c = CHR ''c'' \<or> c = CHR ''C''"
    by (auto simp: to_lower_def split: if_splits)
  moreover have "(of_char c = (67::nat)) = (c = CHR ''C'')"
    using of_char_is[of c "CHR ''C''"] by simp
  then have "same_letter c CHR ''c'' \<longleftrightarrow> c = CHR ''c'' \<or> c = CHR ''C''"
    by (auto simp: same_letter_def)
  ultimately show ?thesis by simp
qed

lemma to_lower_is_n: "to_lower c = CHR ''n'' \<longleftrightarrow> same_letter c CHR ''n''"
proof -
  have "to_lower c = CHR ''n'' \<longleftrightarrow> c = CHR ''n'' \<or> c = CHR ''N''"
    by (auto simp: to_lower_def split: if_splits)
  moreover have "(of_char c = (78::nat)) = (c = CHR ''N'')"
    using of_char_is[of c "CHR ''N''"] by simp
  then have "same_letter c CHR ''n'' \<longleftrightarrow> c = CHR ''n'' \<or> c = CHR ''N''"
    by (auto simp: same_letter_def)
  ultimately show ?thesis by simp
qed

lemma to_lower_is_l: "to_lower c = CHR ''l'' \<longleftrightarrow> same_letter c CHR ''l''"
proof -
  have "to_lower c = CHR ''l'' \<longleftrightarrow> c = CHR ''l'' \<or> c = CHR ''L''"
    by (auto simp: to_lower_def split: if_splits)
  moreover have "(of_char c = (76::nat)) = (c = CHR ''L'')"
    using of_char_is[of c "CHR ''L''"] by simp
  then have "same_letter c CHR ''l'' \<longleftrightarrow> c = CHR ''l'' \<or> c = CHR ''L''"
    by (auto simp: same_letter_def)
  ultimately show ?thesis by simp
qed

lemmas to_lower_is = to_lower_is_a to_lower_is_u to_lower_is_t to_lower_is_o to_lower_is_m to_lower_is_i to_lower_is_c to_lower_is_n to_lower_is_l

lemma lower_automatic:
  "map to_lower mid = ''automatic'' \<longleftrightarrow> list_all2 same_letter mid ''automatic''"
  by (auto simp: map_eq_Cons_conv list_all2_Cons2 to_lower_is)

lemma lower_manual:
  "map to_lower mid = ''manual'' \<longleftrightarrow> list_all2 same_letter mid ''manual''"
  by (auto simp: map_eq_Cons_conv list_all2_Cons2 to_lower_is)

lemma relevance_by_kind:
  "customRelevance gName gId gSite gType =
     (if (\<exists>pre mid post. gType = pre @ mid @ post \<and> list_all2 same_letter mid ''automatic'') then
        ''exists true whose ( if true then ( member of group '' @ gId @ '' of '' @
        (if gSite = ''ActionSite'' then ''site '' @ dq @ ''actionsite'' @ dq
         else ''site '' @ dq @ ''CustomSite_'' @ gSite @ dq) @ '' ) else false)''
      else if (\<exists>pre mid post. gType = pre @ mid @ post \<and> list_all2 same_letter mid ''manual'') then
        ''exists true whose ( if true then ( member of manual group '' @ dq @ gName @ dq @
        '' of client ) else false)''
      else
        ''exists true whose ( if true then ( member of server based group '' @ dq @ gName @ dq @
        '' of client ) else false)'')"
  unfolding customRelevance_def Let_def includes_lower_iff siteTokenForAutomatic_def
    lower_automatic lower_manual
  by simp

lemma relevance_Automatic:
  "customRelevance ''SRV-GRP'' ''42'' ''ActionSite'' ''Automatic'' =
     ''exists true whose ( if true then ( member of group 42 of site '' @ dq @ ''actionsite'' @ dq @
     '' ) else false)''"
  by (simp add: customRelevance_def toLowerSafe_def to_lower_chars siteTokenForAutomatic_def)

lemma relevance_AUTOMATIC:
  "customRelevance ''SRV-GRP'' ''42'' ''Linux'' ''AUTOMATIC'' =
     ''exists true whose ( if true then ( member of group 42 of site '' @ dq @ ''CustomSite_Linux'' @
     dq @ '' ) else false)''"
  by (simp add: customRelevance_def toLowerSafe_def to_lower_chars siteTokenForAutomatic_def)

lemma relevance_site_case:
  "customRelevance ''SRV-GRP'' ''42'' ''actionsite'' ''automatic'' =
     ''exists true whose ( if true then ( member of group 42 of site '' @ dq @
     ''CustomSite_actionsite'' @ dq @ '' ) else false)''"
  by (simp add: customRelevance_def toLowerSafe_def to_lower_chars siteTokenForAutomatic_def)

lemma relevance_Manual:
  "customRelevance ''SRV-GRP'' ''42'' ''Linux'' ''Manual'' =
     ''exists true whose ( if true then ( member of manual group '' @ dq @ ''SRV-GRP'' @ dq @
     '' of client ) else false)''"
  by (simp add: customRelevance_def toLowerSafe_def to_lower_chars)

lemma relevance_both:
  "customRelevance ''SRV-GRP'' ''42'' ''Linux'' ''Manual, Automatic'' =
     ''exists true whose ( if true then ( member of group 42 of site '' @ dq @ ''CustomSite_Linux'' @
     dq @ '' ) else false)''"
  by (simp add: customRelevance_def toLowerSafe_def to_lower_chars siteTokenForAutomatic_def)

lemma relevance_Server:
  "customRelevance ''SRV-GRP'' ''42'' ''Linux'' ''Server Based'' =
     ''exists true whose ( if true then ( member of server based group '' @ dq @ ''SRV-GRP'' @ dq @
     '' of client ) else false)''"
  by (simp add: customRelevance_def toLowerSafe_def to_lower_chars)

text \<open>
  Claim C6. The target expression is a function of the four strings of the resolved
  group alone. If the kind label contains the letters of \<open>automatic\<close>, each in either case, it
  is the template for members of the numeric group id within a site, where the site is the
  reserved \<open>site "actionsite"\<close> exactly when the group's site is \<open>ActionSite\<close> (compared as it
  is written) and \<open>site "CustomSite_<site>"\<close> with the site name as it is otherwise; else, if
  the label contains the letters of \<open>manual\<close>, each in either case, it is the manual-group
  template on the group name; else it is the server-based template on the group name. So the
  labels \<open>Automatic\<close> and \<open>AUTOMATIC\<close> select the dynamic-group template, \<open>Manual\<close> the
  manual-group one, a label with both words the dynamic-group one, and \<open>Server Based\<close> the
  server-based one.
\<close>

theorem target_expression_by_kind:
  "customRelevance gName gId gSite gType =
     (if (\<exists>pre mid post. gType = pre @ mid @ post \<and> list_all2 same_letter mid ''automatic'') then
        ''exists true whose ( if true then ( member of group '' @ gId @ '' of '' @
        (if gSite = ''ActionSite'' then ''site '' @ dq @ ''actionsite'' @ dq
         else ''site '' @ dq @ ''CustomSite_'' @ gSite @ dq) @ '' ) else false)''
      else if (\<exists>pre mid post. gType = pre @ mid @ post \<and> list_all2 same_letter mid ''manual'') then
        ''exists true whose ( if true then ( member of manual group '' @ dq @ gName @ dq @
        '' of client ) else false)''
      else
        ''exists true whose ( if true then ( member of server based group '' @ dq @ gName @ dq @
        '' of client ) else false)'') \<and>
   customRelevance ''SRV-GRP'' ''42'' ''ActionSite'' ''Automatic'' =
     ''exists true whose ( if true then ( member of group 42 of site '' @ [CHR 0x22] @
     ''actionsite'' @ [CHR 0x22] @ '' ) else false)'' \<and>
   customRelevance ''SRV-GRP'' ''42'' ''Linux'' ''AUTOMATIC'' =
     ''exists true whose ( if true then ( member of group 42 of site '' @ [CHR 0x22] @
     ''CustomSite_Linux'' @ [CHR 0x22] @ '' ) else false)'' \<and>
   customRelevance ''SRV-GRP'' ''42'' ''actionsite'' ''automatic'' =
     ''exists true whose ( if true then ( member of group 42 of site '' @ [CHR 0x22] @
     ''CustomSite_actionsite'' @ [CHR 0x22] @ '' ) else false)'' \<and>
   customRelevance ''SRV-GRP'' ''42'' ''Linux'' ''Manual'' =
     ''exists true whose ( if true then ( member of manual group '' @ [CHR 0x22] @ ''SRV-GRP'' @
     [CHR 0x22] @ '' of client ) else false)'' \<and>
   customRelevance ''SRV-GRP'' ''42'' ''Linux'' ''Manual, Automatic'' =
     ''exists true whose ( if true then ( member of group 42 of site '' @ [CHR 0x22] @
     ''CustomSite_Linux'' @ [CHR 0x22] @ '' ) else false)'' \<and>
   customRelevance ''SRV-GRP'' ''42'' ''Linux'' ''Server Based'' =
     ''exists true whose ( if true then ( member of server based group '' @ [CHR 0x22] @
     ''SRV-GRP'' @ [CHR 0x22] @ '' of client ) else false)''"
  using relevance_by_kind[of gName gId gSite gType]
  by (simp only: relevance_Automatic relevance_AUTOMATIC relevance_site_case relevance_Manual
      relevance_both relevance_Server dq_def simp_thms)




end
